theory Spec2Isabelle
  imports Complex_Main
begin

section \<open>Rules search: a model of \<^verbatim>\<open>search_rules.py\<close>\<close>

text \<open>
  The class \<^verbatim>\<open>RulesSearcher\<close> holds the corpus \<^verbatim>\<open>self.rules\<close>, a list of
  dictionaries with the keys \<^verbatim>\<open>rule_number\<close>, \<^verbatim>\<open>text_eng\<close> and \<^verbatim>\<open>text_rus\<close>.
  Its methods are pure functions of the corpus and their arguments; here the corpus is
  an explicit first argument.

  Python strings are modelled as \<^typ>\<open>string\<close>, a character being one of the code
  points U+0000 to U+00FF. The character classes that the methods \<^verbatim>\<open>strip\<close>,
  \<^verbatim>\<open>split\<close>, \<^verbatim>\<open>isdigit\<close>, \<^verbatim>\<open>lower\<close> and \<^verbatim>\<open>int\<close> depend on are those that Python
  gives these code points. Python floats are modelled as exact reals.
\<close>

subsection \<open>String primitives\<close>

text \<open>
  The whitespace of \<^verbatim>\<open>str.strip()\<close> and \<^verbatim>\<open>str.split()\<close>: the code points for which
  \<^verbatim>\<open>str.isspace()\<close> holds.
\<close>

definition whitespace :: "char list" where
  "whitespace = [CHR 0x09, CHR 0x0A, CHR 0x0B, CHR 0x0C, CHR 0x0D,
                 CHR 0x1C, CHR 0x1D, CHR 0x1E, CHR 0x1F, CHR '' '',
                 CHR 0x85, CHR 0xA0]"

definition is_space :: "char \<Rightarrow> bool" where
  "is_space c = (c \<in> set whitespace)"

text \<open>\<^verbatim>\<open>s.strip()\<close>\<close>

definition strip :: "string \<Rightarrow> string" where
  "strip s = rev (dropWhile is_space (rev (dropWhile is_space s)))"

text \<open>\<^verbatim>\<open>s.split()\<close>: the maximal runs of non-whitespace characters, in order.\<close>

fun split_aux :: "string \<Rightarrow> string \<Rightarrow> string list" where
  "split_aux cur [] = (if cur = [] then [] else [cur])"
| "split_aux cur (c # cs) =
     (if is_space c then (if cur = [] then split_aux [] cs else cur # split_aux [] cs)
      else split_aux (cur @ [c]) cs)"

definition py_split :: "string \<Rightarrow> string list" where
  "py_split s = split_aux [] s"

text \<open>
  \<^verbatim>\<open>s.lower()\<close>: the letters A to Z and the upper-case letters U+00C0 to U+00DE (without
  the multiplication sign U+00D7) are mapped to their lower-case forms, every other
  character to itself.
\<close>

definition upper_chars :: "char list" where
  "upper_chars =
     ''ABCDEFGHIJKLMNOPQRSTUVWXYZ'' @
       [CHR 0xC0, CHR 0xC1, CHR 0xC2, CHR 0xC3, CHR 0xC4, CHR 0xC5, CHR 0xC6,
        CHR 0xC7, CHR 0xC8, CHR 0xC9, CHR 0xCA, CHR 0xCB, CHR 0xCC, CHR 0xCD,
        CHR 0xCE, CHR 0xCF, CHR 0xD0, CHR 0xD1, CHR 0xD2, CHR 0xD3, CHR 0xD4,
        CHR 0xD5, CHR 0xD6, CHR 0xD8, CHR 0xD9, CHR 0xDA, CHR 0xDB, CHR 0xDC,
        CHR 0xDD, CHR 0xDE]"

definition lower_chars :: "char list" where
  "lower_chars =
     ''abcdefghijklmnopqrstuvwxyz'' @
       [CHR 0xE0, CHR 0xE1, CHR 0xE2, CHR 0xE3, CHR 0xE4, CHR 0xE5, CHR 0xE6,
        CHR 0xE7, CHR 0xE8, CHR 0xE9, CHR 0xEA, CHR 0xEB, CHR 0xEC, CHR 0xED,
        CHR 0xEE, CHR 0xEF, CHR 0xF0, CHR 0xF1, CHR 0xF2, CHR 0xF3, CHR 0xF4,
        CHR 0xF5, CHR 0xF6, CHR 0xF8, CHR 0xF9, CHR 0xFA, CHR 0xFB, CHR 0xFC,
        CHR 0xFD, CHR 0xFE]"

definition lower_char :: "char \<Rightarrow> char" where
  "lower_char c =
     (case map_of (zip upper_chars lower_chars) c of
        Some d \<Rightarrow> d
      | None \<Rightarrow> c)"

definition lower :: "string \<Rightarrow> string" where
  "lower s = map lower_char s"

text \<open>
  \<^verbatim>\<open>s.isdigit()\<close>: non-empty and every character a digit. Besides 0 to 9, the
  superscript digits U+00B2, U+00B3 and U+00B9 are digits for \<^verbatim>\<open>isdigit\<close>.
\<close>

definition is_digit_char :: "char \<Rightarrow> bool" where
  "is_digit_char c = (c \<in> set (''0123456789'' @ [CHR 0xB2, CHR 0xB3, CHR 0xB9]))"

definition isdigit :: "string \<Rightarrow> bool" where
  "isdigit s = (s \<noteq> [] \<and> list_all is_digit_char s)"

text \<open>
  \<^verbatim>\<open>int(s)\<close>, as far as the one call under \<^verbatim>\<open>isdigit\<close> needs it. It raises
  \<^verbatim>\<open>ValueError\<close> on the empty string, on a character that is not a decimal digit (the
  superscript digits are not), and on more than 4300 digits, the default limit of
  CPython 3.11 for the conversion of a string to an integer.
\<close>

datatype error = ValueError

definition is_decimal_char :: "char \<Rightarrow> bool" where
  "is_decimal_char c = (c \<in> set ''0123456789'')"

definition digit_val :: "char \<Rightarrow> int" where
  "digit_val c = of_char c - 48"

definition max_str_digits :: nat where
  "max_str_digits = 4300"

definition py_int :: "string \<Rightarrow> error + int" where
  "py_int s =
     (if s = [] then Inl ValueError
      else if list_all is_decimal_char s
        then (if length s > max_str_digits then Inl ValueError
              else Inr (foldl (\<lambda>n c. 10 * n + digit_val c) 0 s))
      else Inl ValueError)"

text \<open>\<^verbatim>\<open>text.startswith(q)\<close> and the substring test \<^verbatim>\<open>q in text\<close>.\<close>

fun startswith :: "'a list \<Rightarrow> 'a list \<Rightarrow> bool" where
  "startswith [] text = True"
| "startswith (q # qs) [] = False"
| "startswith (q # qs) (c # cs) = (q = c \<and> startswith qs cs)"

fun str_in :: "'a list \<Rightarrow> 'a list \<Rightarrow> bool" where
  "str_in q [] = (q = [])"
| "str_in q (c # cs) = (startswith q (c # cs) \<or> str_in q cs)"

subsection \<open>The character-level ratio of the standard library\<close>

text \<open>
  \<^verbatim>\<open>SequenceMatcher(None, a, b).ratio()\<close> of Python's \<^verbatim>\<open>difflib\<close>, which the scorer
  calls. No junk predicate is given, so the set \<^verbatim>\<open>bjunk\<close> is empty; the automatic
  heuristic drops from the index \<^verbatim>\<open>b2j\<close> every element of \<^verbatim>\<open>b\<close> that occurs more than
  \<^verbatim>\<open>len(b) // 100 + 1\<close> times when \<^verbatim>\<open>len(b) >= 200\<close>.
\<close>

definition popular :: "string \<Rightarrow> char \<Rightarrow> bool" where
  "popular b elt = (length b \<ge> 200 \<and> count_list b elt > length b div 100 + 1)"

definition b2j :: "string \<Rightarrow> char \<Rightarrow> nat list" where
  "b2j b elt = (if popular b elt then [] else filter (\<lambda>j. b ! j = elt) [0..<length b])"

text \<open>
  The dictionary \<^verbatim>\<open>j2len\<close> is only read through \<^verbatim>\<open>j2len.get(j-1, 0)\<close>: it is a
  function with the default 0. The key \<^verbatim>\<open>-1\<close> is never stored.
\<close>

type_synonym lm_state = "(nat \<Rightarrow> nat) \<times> nat \<times> nat \<times> nat"

fun lm_inner :: "nat \<Rightarrow> nat \<Rightarrow> nat \<Rightarrow> (nat \<Rightarrow> nat) \<Rightarrow> nat list \<Rightarrow> lm_state \<Rightarrow> lm_state" where
  "lm_inner blo bhi i j2len [] st = st"
| "lm_inner blo bhi i j2len (j # js) (newj2len, besti, bestj, bestsize) =
     (if j < blo then lm_inner blo bhi i j2len js (newj2len, besti, bestj, bestsize)
      else if j \<ge> bhi then (newj2len, besti, bestj, bestsize)
      else (let k = (if j = 0 then 0 else j2len (j - 1)) + 1 in
            if k > bestsize
            then lm_inner blo bhi i j2len js (newj2len(j := k), i + 1 - k, j + 1 - k, k)
            else lm_inner blo bhi i j2len js (newj2len(j := k), besti, bestj, bestsize)))"

function lm_outer :: "string \<Rightarrow> string \<Rightarrow> nat \<Rightarrow> nat \<Rightarrow> nat \<Rightarrow> nat \<Rightarrow> lm_state \<Rightarrow> lm_state" where
  "lm_outer a b ahi blo bhi i (j2len, besti, bestj, bestsize) =
     (if i < ahi
      then lm_outer a b ahi blo bhi (i + 1)
             (lm_inner blo bhi i j2len (b2j b (a ! i)) (\<lambda>_. 0, besti, bestj, bestsize))
      else (j2len, besti, bestj, bestsize))"
  by pat_completeness auto
termination
  by (relation "measure (\<lambda>(a, b, ahi, blo, bhi, i, st). ahi - i)") auto

function extend_left :: "string \<Rightarrow> string \<Rightarrow> nat \<Rightarrow> nat \<Rightarrow> nat \<times> nat \<times> nat \<Rightarrow> nat \<times> nat \<times> nat" where
  "extend_left a b alo blo (besti, bestj, bestsize) =
     (if besti > alo \<and> bestj > blo \<and> a ! (besti - 1) = b ! (bestj - 1)
      then extend_left a b alo blo (besti - 1, bestj - 1, bestsize + 1)
      else (besti, bestj, bestsize))"
  by pat_completeness auto
termination
  by (relation "measure (\<lambda>(a, b, alo, blo, besti, bestj, bestsize). besti)") auto

function extend_right :: "string \<Rightarrow> string \<Rightarrow> nat \<Rightarrow> nat \<Rightarrow> nat \<times> nat \<times> nat \<Rightarrow> nat \<times> nat \<times> nat" where
  "extend_right a b ahi bhi (besti, bestj, bestsize) =
     (if besti + bestsize < ahi \<and> bestj + bestsize < bhi
         \<and> a ! (besti + bestsize) = b ! (bestj + bestsize)
      then extend_right a b ahi bhi (besti, bestj, bestsize + 1)
      else (besti, bestj, bestsize))"
  by pat_completeness auto
termination
  by (relation "measure (\<lambda>(a, b, ahi, bhi, besti, bestj, bestsize). ahi - (besti + bestsize))") auto

text \<open>
  \<^verbatim>\<open>find_longest_match(alo, ahi, blo, bhi)\<close>. The two loops that extend the block by
  junk elements never run, since \<^verbatim>\<open>bjunk\<close> is empty.
\<close>

definition find_longest_match :: "string \<Rightarrow> string \<Rightarrow> nat \<Rightarrow> nat \<Rightarrow> nat \<Rightarrow> nat \<Rightarrow> nat \<times> nat \<times> nat" where
  "find_longest_match a b alo ahi blo bhi =
     (case lm_outer a b ahi blo bhi alo (\<lambda>_. 0, alo, blo, 0) of
        (j2len, besti, bestj, bestsize) \<Rightarrow>
          extend_right a b ahi bhi (extend_left a b alo blo (besti, bestj, bestsize)))"

declare lm_outer.simps [simp del] extend_left.simps [simp del] extend_right.simps [simp del]

text \<open>
  Bounds of the block that \<^verbatim>\<open>find_longest_match\<close> returns. They are what makes
  the recursion of \<^verbatim>\<open>get_matching_blocks\<close> terminate.
\<close>

definition lm_ok :: "nat \<Rightarrow> nat \<Rightarrow> nat \<Rightarrow> nat \<Rightarrow> lm_state \<Rightarrow> bool" where
  "lm_ok alo blo bhi n st =
     (case st of (f, besti, bestj, bestsize) \<Rightarrow>
        alo \<le> besti \<and> blo \<le> bestj
        \<and> (if bestsize = 0 then besti = alo \<and> bestj = blo
             else besti + bestsize \<le> n \<and> bestj + bestsize \<le> bhi)
        \<and> (\<forall>j. f j \<le> n - alo \<and> f j \<le> j + 1 - blo))"

lemma lm_inner_ok:
  assumes "alo \<le> i" and "\<forall>j. j2len j \<le> i - alo \<and> j2len j \<le> j + 1 - blo"
  shows "lm_ok alo blo bhi (i + 1) st \<Longrightarrow> lm_ok alo blo bhi (i + 1) (lm_inner blo bhi i j2len js st)"
proof (induction js arbitrary: st)
  case Nil
  then show ?case by simp
next
  case (Cons j js)
  obtain f besti bestj bestsize where st: "st = (f, besti, bestj, bestsize)"
    by (cases st) auto
  show ?case
  proof (cases "j < blo")
    case True
    with Cons st show ?thesis by simp
  next
    case lo: False
    show ?thesis
    proof (cases "j \<ge> bhi")
      case True
      with lo Cons.prems st show ?thesis by simp
    next
      case hi: False
      define k where "k = (if j = 0 then 0 else j2len (j - 1)) + 1"
      have k1: "k \<le> i + 1 - alo"
        using assms by (auto simp: k_def Suc_diff_le)
      have k2: "k \<le> j + 1 - blo"
      proof (cases "j = 0")
        case True
        with lo show ?thesis by (simp add: k_def)
      next
        case False
        have "j2len (j - 1) \<le> (j - 1) + 1 - blo" using assms(2) by blast
        with False lo show ?thesis by (simp add: k_def)
      qed
      have kpos: "0 < k" by (simp add: k_def)
      have ok1: "lm_ok alo blo bhi (i + 1) (f(j := k), besti, bestj, bestsize)"
        using Cons.prems k1 k2 by (auto simp: lm_ok_def st)
      have ok2: "lm_ok alo blo bhi (i + 1) (f(j := k), i + 1 - k, j + 1 - k, k)"
        using Cons.prems k1 k2 kpos lo hi assms(1) by (auto simp: lm_ok_def st)
      show ?thesis
        using Cons.IH[OF ok1] Cons.IH[OF ok2] lo hi
        by (simp add: st k_def Let_def)
    qed
  qed
qed

lemma lm_ok_mono: "lm_ok alo blo bhi n st \<Longrightarrow> n \<le> m \<Longrightarrow> lm_ok alo blo bhi m st"
  by (cases st) (auto simp: lm_ok_def intro: order_trans)

lemma lm_outer_ok:
  "alo \<le> i \<Longrightarrow> lm_ok alo blo bhi i st \<Longrightarrow> lm_ok alo blo bhi (max i ahi) (lm_outer a b ahi blo bhi i st)"
proof (induction a b ahi blo bhi i st rule: lm_outer.induct)
  case (1 a b ahi blo bhi i j2len besti bestj bestsize)
  show ?case
  proof (cases "i < ahi")
    case True
    have j2: "\<forall>j. j2len j \<le> i - alo \<and> j2len j \<le> j + 1 - blo"
      using "1.prems"(2) by (simp add: lm_ok_def)
    have init: "lm_ok alo blo bhi (i + 1) (\<lambda>_. 0, besti, bestj, bestsize)"
      using "1.prems"(2) by (auto simp: lm_ok_def)
    have step: "lm_ok alo blo bhi (i + 1)
                  (lm_inner blo bhi i j2len (b2j b (a ! i)) (\<lambda>_. 0, besti, bestj, bestsize))"
      by (rule lm_inner_ok[OF "1.prems"(1) j2 init])
    have "lm_ok alo blo bhi (max (i + 1) ahi)
            (lm_outer a b ahi blo bhi (i + 1)
               (lm_inner blo bhi i j2len (b2j b (a ! i)) (\<lambda>_. 0, besti, bestj, bestsize)))"
      using "1.IH"[OF True _ step] "1.prems"(1) by simp
    moreover have "max (i + 1) ahi = max i ahi" using True by simp
    ultimately show ?thesis using True by (subst lm_outer.simps) simp
  next
    case False
    then have "max i ahi = i" by simp
    with False "1.prems" show ?thesis by (subst lm_outer.simps) simp
  qed
qed

definition block_ok :: "nat \<Rightarrow> nat \<Rightarrow> nat \<Rightarrow> nat \<Rightarrow> nat \<times> nat \<times> nat \<Rightarrow> bool" where
  "block_ok alo ahi blo bhi m =
     (case m of (i, j, k) \<Rightarrow>
        alo \<le> i \<and> blo \<le> j
        \<and> (if k = 0 then i = alo \<and> j = blo else i + k \<le> ahi \<and> j + k \<le> bhi))"

lemma extend_left_ok:
  "block_ok alo ahi blo bhi m \<Longrightarrow> block_ok alo ahi blo bhi (extend_left a b alo blo m)"
proof (induction a b alo blo m rule: extend_left.induct)
  case (1 a b alo blo besti bestj bestsize)
  show ?case
  proof (cases "besti > alo \<and> bestj > blo \<and> a ! (besti - 1) = b ! (bestj - 1)")
    case True
    have "block_ok alo ahi blo bhi (besti - 1, bestj - 1, bestsize + 1)"
      using "1.prems" True by (auto simp: block_ok_def split: if_splits)
    from "1.IH"[OF True this] True show ?thesis by (subst extend_left.simps) simp
  next
    case False
    with "1.prems" show ?thesis by (subst extend_left.simps) auto
  qed
qed

lemma extend_right_ok:
  "block_ok alo ahi blo bhi m \<Longrightarrow> block_ok alo ahi blo bhi (extend_right a b ahi bhi m)"
proof (induction a b ahi bhi m rule: extend_right.induct)
  case (1 a b ahi bhi besti bestj bestsize)
  show ?case
  proof (cases "besti + bestsize < ahi \<and> bestj + bestsize < bhi
         \<and> a ! (besti + bestsize) = b ! (bestj + bestsize)")
    case True
    have "block_ok alo ahi blo bhi (besti, bestj, bestsize + 1)"
      using "1.prems" True by (auto simp: block_ok_def split: if_splits)
    from "1.IH"[OF True this] True show ?thesis by (subst extend_right.simps) simp
  next
    case False
    with "1.prems" show ?thesis by (subst extend_right.simps) auto
  qed
qed

lemma find_longest_match_ok:
  "block_ok alo ahi blo bhi (find_longest_match a b alo ahi blo bhi)"
proof -
  obtain f besti bestj bestsize where
    r: "lm_outer a b ahi blo bhi alo (\<lambda>_. 0, alo, blo, 0) = (f, besti, bestj, bestsize)"
    by (cases "lm_outer a b ahi blo bhi alo (\<lambda>_. 0, alo, blo, 0)") auto
  have "lm_ok alo blo bhi alo (\<lambda>_. 0, alo, blo, 0)" by (simp add: lm_ok_def)
  from lm_outer_ok[OF order_refl this, of ahi a b] r
  have ok: "lm_ok alo blo bhi (max alo ahi) (f, besti, bestj, bestsize)" by simp
  have "block_ok alo ahi blo bhi (besti, bestj, bestsize)"
  proof (cases "alo < ahi")
    case True
    with ok show ?thesis by (auto simp: lm_ok_def block_ok_def)
  next
    case False
    then have "lm_outer a b ahi blo bhi alo (\<lambda>_. 0, alo, blo, 0) = (\<lambda>_. 0, alo, blo, 0)"
      by (subst lm_outer.simps) simp
    with r show ?thesis by (auto simp: block_ok_def)
  qed
  then show ?thesis
    by (simp add: find_longest_match_def r extend_left_ok extend_right_ok)
qed

text \<open>
  \<^verbatim>\<open>get_matching_blocks\<close> keeps a work list of the regions left and right of each block
  found; \<^verbatim>\<open>ratio\<close> only sums the sizes of the blocks, so the model recurses into the two
  regions and adds the sizes up.
\<close>

function matching_size :: "string \<Rightarrow> string \<Rightarrow> nat \<Rightarrow> nat \<Rightarrow> nat \<Rightarrow> nat \<Rightarrow> nat" where
  "matching_size a b alo ahi blo bhi =
     (case find_longest_match a b alo ahi blo bhi of
        (i, j, k) \<Rightarrow>
          if k = 0 then 0
          else k + (if alo < i \<and> blo < j then matching_size a b alo i blo j else 0)
                 + (if i + k < ahi \<and> j + k < bhi then matching_size a b (i + k) ahi (j + k) bhi else 0))"
  by pat_completeness auto
termination
  apply (relation "measure (\<lambda>(a, b, alo, ahi, blo, bhi). ahi - alo)")
    apply simp
  subgoal for a b alo ahi blo bhi
    using find_longest_match_ok[of alo ahi blo bhi a b] by (auto simp: block_ok_def)
  subgoal for a b alo ahi blo bhi
    using find_longest_match_ok[of alo ahi blo bhi a b] by (auto simp: block_ok_def)
  done
declare matching_size.simps [simp del]

text \<open>\<^verbatim>\<open>ratio()\<close>, with \<^verbatim>\<open>_calculate_ratio(matches, length)\<close> inlined.\<close>

definition ratio :: "string \<Rightarrow> string \<Rightarrow> real" where
  "ratio a b =
     (let matches = matching_size a b 0 (length a) 0 (length b);
          len = length a + length b
      in if len \<noteq> 0 then 2.0 * real matches / real len else 1.0)"

lemma matching_size_le:
  "matching_size a b alo ahi blo bhi \<le> ahi - alo \<and> matching_size a b alo ahi blo bhi \<le> bhi - blo"
proof (induction a b alo ahi blo bhi rule: matching_size.induct)
  case (1 a b alo ahi blo bhi)
  obtain i j k where m: "find_longest_match a b alo ahi blo bhi = (i, j, k)"
    by (cases "find_longest_match a b alo ahi blo bhi") auto
  show ?case
  proof (cases "k = 0")
    case True
    with m show ?thesis by (subst (1 2) matching_size.simps) simp
  next
    case False
    have ok: "alo \<le> i" "blo \<le> j" "i + k \<le> ahi" "j + k \<le> bhi"
      using find_longest_match_ok[of alo ahi blo bhi a b] m False by (auto simp: block_ok_def)
    define L where "L = (if alo < i \<and> blo < j then matching_size a b alo i blo j else 0)"
    define R where "R = (if i + k < ahi \<and> j + k < bhi then matching_size a b (i + k) ahi (j + k) bhi else 0)"
    have L: "L \<le> i - alo \<and> L \<le> j - blo"
      using "1.IH"(1)[of i "(j, k)" j k] m False by (auto simp: L_def)
    have R: "R \<le> ahi - (i + k) \<and> R \<le> bhi - (j + k)"
      using "1.IH"(2)[of i "(j, k)" j k] m False by (auto simp: R_def)
    have "matching_size a b alo ahi blo bhi = k + L + R"
      using m False by (subst matching_size.simps) (simp add: L_def R_def)
    with L R ok show ?thesis by linarith
  qed
qed

lemma ratio_bounds: "0 \<le> ratio a b \<and> ratio a b \<le> 1"
proof -
  have "matching_size a b 0 (length a) 0 (length b) \<le> length a"
       "matching_size a b 0 (length a) 0 (length b) \<le> length b"
    using matching_size_le[of a b 0 "length a" 0 "length b"] by simp_all
  then have "2 * real (matching_size a b 0 (length a) 0 (length b)) \<le> real (length a + length b)"
    by simp
  then show ?thesis
    by (auto simp: ratio_def Let_def divide_le_eq_1)
qed



subsection \<open>The corpus and the results\<close>

record rule =
  rule_number :: int
  text_eng :: string
  text_rus :: string

text \<open>
  A result is a dictionary built by a literal. \<^verbatim>\<open>fuzzy_search\<close> writes the key
  \<^verbatim>\<open>is_direct_rule\<close>, \<^verbatim>\<open>search_by_keywords\<close> does not: the field is optional, and
  \<open>None\<close> is a dictionary without that key. The fields copied from the rule carry the
  prefix \<open>res_\<close>.
\<close>

record match_result =
  res_rule_number :: int
  res_text_eng :: string
  res_text_rus :: string
  similarity_score :: real
  matched_language :: string
  is_direct_rule :: "bool option"

subsection \<open>\<^verbatim>\<open>_calculate_sequence_similarity\<close>\<close>

text \<open>
  The innermost loop, \<^verbatim>\<open>for k in range(window_start, window_end)\<close>, stops at the first
  \<open>k\<close> with \<^verbatim>\<open>text_words[k] == query_word\<close>. The window lies inside the text, so the
  index is always in range.
\<close>

definition find_in_window :: "string list \<Rightarrow> string \<Rightarrow> int \<Rightarrow> int \<Rightarrow> int option" where
  "find_in_window text_words query_word window_start window_end =
     map_option int
       (List.find (\<lambda>k. text_words ! k = query_word) [nat window_start ..< nat window_end])"

text \<open>
  The loop over the query words, with its variables \<open>matches\<close>, \<open>gaps\<close> and
  \<open>last_pos\<close>; it breaks at the first word that is not found.
\<close>

fun match_words :: "string list \<Rightarrow> string list \<Rightarrow> int \<Rightarrow> int \<Rightarrow> int \<Rightarrow> int \<times> int" where
  "match_words text_words [] matches gaps last_pos = (matches, gaps)"
| "match_words text_words (query_word # rest) matches gaps last_pos =
     (let window_start = max 0 (last_pos - 2);
          window_end = min (int (length text_words)) (last_pos + 3)
      in case find_in_window text_words query_word window_start window_end of
           None \<Rightarrow> (matches, gaps)
         | Some k \<Rightarrow>
             match_words text_words rest (matches + 1) (gaps + max 0 (k - last_pos - 1)) (k + 1))"

text \<open>The score of a start position from which every query word matched.\<close>

definition gap_score :: "int \<Rightarrow> real" where
  "gap_score gaps = (let gap_penalty = min 0.3 (real_of_int gaps * 0.1) in 0.9 - gap_penalty)"

text \<open>One round of the loop \<^verbatim>\<open>for i in range(len(text_words) - len(query_words) + 1)\<close>.\<close>

definition sequence_step :: "string list \<Rightarrow> string list \<Rightarrow> real \<Rightarrow> int \<Rightarrow> real" where
  "sequence_step query_words text_words best_score i =
     (case match_words text_words query_words 0 0 i of
        (matches, gaps) \<Rightarrow>
          if matches = int (length query_words) then max best_score (gap_score gaps)
          else best_score)"

definition start_positions :: "string list \<Rightarrow> string list \<Rightarrow> int list" where
  "start_positions query_words text_words =
     map int [0 ..< nat (int (length text_words) - int (length query_words) + 1)]"

definition calculate_sequence_similarity :: "string list \<Rightarrow> string list \<Rightarrow> real" where
  "calculate_sequence_similarity query_words text_words =
     (if length query_words < 2 then 0.0
      else foldl (sequence_step query_words text_words) 0.0
             (start_positions query_words text_words))"

subsection \<open>\<^verbatim>\<open>_calculate_similarity\<close>\<close>

text \<open>\<^verbatim>\<open>sum(1 for word in query_words if word in text)\<close>\<close>

definition word_matches :: "string list \<Rightarrow> string \<Rightarrow> nat" where
  "word_matches query_words text = length (filter (\<lambda>word. str_in word text) query_words)"

text \<open>
  The two nested loops of method 7. The \<^verbatim>\<open>break\<close> leaves the inner loop only; the
  outer loop goes on with the next query word.
\<close>

fun partial_inner :: "string \<Rightarrow> string list \<Rightarrow> real \<Rightarrow> real" where
  "partial_inner query_word [] partial_score = partial_score"
| "partial_inner query_word (text_word # rest) partial_score =
     (if str_in query_word text_word \<or> str_in text_word query_word then max partial_score 0.3
      else partial_inner query_word rest partial_score)"

fun partial_loop :: "string list \<Rightarrow> string list \<Rightarrow> real \<Rightarrow> real" where
  "partial_loop [] text_words partial_score = partial_score"
| "partial_loop (query_word # rest) text_words partial_score =
     partial_loop rest text_words (partial_inner query_word text_words partial_score)"

text \<open>
  Methods 5 to 7, from \<^verbatim>\<open>seq_score = SequenceMatcher(None, query, text).ratio()\<close> to
  the end of the function. Python sets are lists without duplicates; only their sizes
  and their members are used.
\<close>

definition fallback_score :: "string \<Rightarrow> string list \<Rightarrow> string \<Rightarrow> real" where
  "fallback_score query query_words text =
     (let seq_score = ratio query text;
          text_words = remdups (py_split text)
      in if query_words = [] then seq_score
         else
           (let intersection = filter (\<lambda>w. w \<in> set text_words) (remdups query_words);
                union = remdups (query_words @ text_words);
                word_score = (if union \<noteq> [] then real (length intersection) / real (length union)
                              else 0.0);
                partial_score = partial_loop query_words text_words 0.0
            in seq_score * 0.15 + word_score * 0.25 + partial_score * 0.25))"

definition calculate_similarity :: "string \<Rightarrow> string \<Rightarrow> real" where
  "calculate_similarity query text =
     (if str_in query text then 1.0
      else
        (let query_words = py_split query;
             n = length query_words;
             sequence_score = calculate_sequence_similarity query_words (py_split text);
             matches = word_matches query_words text
         in if n > 1 \<and> sequence_score > 0.8 then sequence_score
            else if n > 1 \<and> matches = n then 0.7
            else if n > 1 \<and> real matches > real n * 0.7
              then 0.5 + (real matches / real n) * 0.2
            else if n = 1 \<and> str_in (query_words ! 0) text then 0.6
            else fallback_score query query_words text))"

subsection \<open>\<^verbatim>\<open>search_by_rule_number\<close> and \<^verbatim>\<open>fuzzy_search\<close>\<close>

fun search_by_rule_number :: "rule list \<Rightarrow> int \<Rightarrow> rule option" where
  "search_by_rule_number [] n = None"
| "search_by_rule_number (r # rules) n =
     (if rule_number r = n then Some r else search_by_rule_number rules n)"

text \<open>
  \<^verbatim>\<open>results.sort(key=lambda x: x['similarity_score'], reverse=True)\<close>. Python's sort
  is stable; with \<^verbatim>\<open>reverse=True\<close> it reverses the list, sorts it in ascending order and
  reverses the outcome.
\<close>

definition sort_reverse :: "match_result list \<Rightarrow> match_result list" where
  "sort_reverse results = rev (sort_key similarity_score (rev results))"

text \<open>The slice \<^verbatim>\<open>results[:k]\<close>; a negative \<open>k\<close> counts from the end.\<close>

definition slice_to :: "int \<Rightarrow> 'a list \<Rightarrow> 'a list" where
  "slice_to k xs = (if k \<ge> 0 then take (nat k) xs else take (nat (int (length xs) + k)) xs)"

text \<open>The loop \<^verbatim>\<open>for rule in self.rules\<close> of \<^verbatim>\<open>fuzzy_search\<close>, appending to \<open>results\<close>.\<close>

fun fuzzy_loop :: "rule list \<Rightarrow> string \<Rightarrow> real \<Rightarrow> match_result list \<Rightarrow> match_result list" where
  "fuzzy_loop [] query_lower threshold results = results"
| "fuzzy_loop (r # rules) query_lower threshold results =
     (let eng_score = calculate_similarity query_lower (lower (text_eng r));
          rus_score = calculate_similarity query_lower (lower (text_rus r));
          best_score = max eng_score rus_score
      in if best_score \<ge> threshold
         then fuzzy_loop rules query_lower threshold
                (results @ [\<lparr> res_rule_number = rule_number r,
                               res_text_eng = text_eng r,
                               res_text_rus = text_rus r,
                               similarity_score = best_score,
                               matched_language =
                                 (if eng_score > rus_score then ''English'' else ''Russian''),
                               is_direct_rule = Some False \<rparr>])
         else fuzzy_loop rules query_lower threshold results)"

text \<open>
  \<^verbatim>\<open>fuzzy_search\<close>. The call \<^verbatim>\<open>int(query.strip())\<close> is not inside a \<^verbatim>\<open>try\<close>: when it
  raises, the method raises, which is the value \<open>Inl ValueError\<close>.
\<close>

definition fuzzy_search ::
  "rule list \<Rightarrow> string \<Rightarrow> real \<Rightarrow> int \<Rightarrow> error + match_result list" where
  "fuzzy_search rules query threshold max_results =
     (if strip query = [] then Inr []
      else if isdigit (strip query) then
        (case py_int (strip query) of
           Inl e \<Rightarrow> Inl e
         | Inr number \<Rightarrow>
             (case search_by_rule_number rules number of
                Some result \<Rightarrow>
                  Inr [\<lparr> res_rule_number = rule_number result,
                          res_text_eng = text_eng result,
                          res_text_rus = text_rus result,
                          similarity_score = 1.0,
                          matched_language = ''Direct Rule Number'',
                          is_direct_rule = Some True \<rparr>]
              | None \<Rightarrow> Inr []))
      else
        (let query_lower = strip (lower query);
             results = fuzzy_loop rules query_lower threshold []
         in Inr (slice_to max_results (sort_reverse results))))"

subsection \<open>\<^verbatim>\<open>search_by_keywords\<close>\<close>

text \<open>The loop that sets \<open>all_present\<close>, with its \<^verbatim>\<open>break\<close>.\<close>

fun all_present :: "string list \<Rightarrow> string \<Rightarrow> string \<Rightarrow> bool" where
  "all_present [] eng_text rus_text = True"
| "all_present (keyword # rest) eng_text rus_text =
     (let keyword_lower = lower keyword
      in if \<not> str_in keyword_lower eng_text \<and> \<not> str_in keyword_lower rus_text then False
         else all_present rest eng_text rus_text)"

text \<open>The loop that accumulates the variable \<^verbatim>\<open>total_score\<close>, here \<open>acc\<close>.\<close>

fun total_score :: "string list \<Rightarrow> string \<Rightarrow> string \<Rightarrow> real \<Rightarrow> real" where
  "total_score [] eng_text rus_text acc = acc"
| "total_score (keyword # rest) eng_text rus_text acc =
     (let keyword_lower = lower keyword;
          eng_score = calculate_similarity keyword_lower eng_text;
          rus_score = calculate_similarity keyword_lower rus_text
      in total_score rest eng_text rus_text (acc + max eng_score rus_score))"

fun keywords_loop :: "rule list \<Rightarrow> string list \<Rightarrow> real \<Rightarrow> match_result list \<Rightarrow> match_result list" where
  "keywords_loop [] keywords threshold results = results"
| "keywords_loop (r # rules) keywords threshold results =
     (let eng_text = lower (text_eng r);
          rus_text = lower (text_rus r)
      in if all_present keywords eng_text rus_text
         then
           (let avg_score = total_score keywords eng_text rus_text 0 / real (length keywords)
            in if avg_score \<ge> threshold
               then keywords_loop rules keywords threshold
                      (results @ [\<lparr> res_rule_number = rule_number r,
                                     res_text_eng = text_eng r,
                                     res_text_rus = text_rus r,
                                     similarity_score = avg_score,
                                     matched_language = ''Both'',
                                     is_direct_rule = None \<rparr>])
               else keywords_loop rules keywords threshold results)
         else keywords_loop rules keywords threshold results)"

definition search_by_keywords :: "rule list \<Rightarrow> string list \<Rightarrow> real \<Rightarrow> match_result list" where
  "search_by_keywords rules keywords threshold =
     (if keywords = [] then []
      else sort_reverse (keywords_loop rules keywords threshold []))"



subsection \<open>A small corpus for concrete instances\<close>

definition example_rules :: "rule list" where
  "example_rules =
     [\<lparr> rule_number = 5, text_eng = ''Harden up'', text_rus = ''bud krepche'' \<rparr>,
      \<lparr> rule_number = 6, text_eng = ''Free your mind and your legs will follow'', text_rus = ''osvobodi razum'' \<rparr>,
      \<lparr> rule_number = 10, text_eng = ''It never gets easier you just go faster'', text_rus = ''legche ne stanet'' \<rparr>]"

section \<open>Properties\<close>

subsection \<open>Empty inputs\<close>

lemma strip_all_space: "list_all is_space s \<Longrightarrow> strip s = []"
proof -
  assume "list_all is_space s"
  then have h: "dropWhile is_space s = []"
    by (simp add: dropWhile_eq_Nil_conv list_all_iff)
  show ?thesis by (simp add: strip_def h)
qed

text \<open>
  C9: \<^verbatim>\<open>fuzzy_search\<close> on an empty or whitespace-only query returns the empty list, for
  every threshold and \<^verbatim>\<open>max_results\<close>, and \<^verbatim>\<open>search_by_keywords\<close> on an empty keyword
  list returns the empty list. Both are returned values: neither input raises.
\<close>

theorem empty_inputs_give_empty_results:
  "list_all is_space query \<Longrightarrow>
     fuzzy_search rules query threshold max_results = Inr []
     \<and> search_by_keywords rules [] threshold' = []"
  by (simp add: fuzzy_search_def search_by_keywords_def strip_all_space)

theorem empty_inputs_witness:
  "list_all is_space [CHR '' '', CHR 0x09, CHR '' '']
   \<and> fuzzy_search example_rules [CHR '' '', CHR 0x09, CHR '' ''] 0.6 10 = Inr []
   \<and> search_by_keywords example_rules [] 0.5 = []"
  using empty_inputs_give_empty_results
          [of "[CHR '' '', CHR 0x09, CHR '' '']" example_rules "0.6" 10 "0.5"]
  by (simp add: is_space_def whitespace_def)

subsection \<open>Numeric queries\<close>

lemma search_by_rule_number_None:
  "search_by_rule_number rules n = None \<longleftrightarrow> (\<forall>r \<in> set rules. rule_number r \<noteq> n)"
  by (induction rules) auto

lemma search_by_rule_number_Some:
  "search_by_rule_number rules n = Some r \<Longrightarrow> r \<in> set rules \<and> rule_number r = n"
  by (induction rules) (auto split: if_splits)

text \<open>
  When \<^verbatim>\<open>int\<close> returns a number, the numeric branch does what is expected of it:
  exactly one result with score 1.0, marked direct, with the language
  \<^verbatim>\<open>Direct Rule Number\<close>, if some rule of the corpus has that number, and the empty
  list if none has; the threshold and \<^verbatim>\<open>max_results\<close> play no part.
\<close>

lemma numeric_query_direct_lookup:
  assumes "isdigit (strip query)" and "py_int (strip query) = Inr n"
  shows "((\<exists>r \<in> set rules. rule_number r = n) \<longrightarrow>
            (\<exists>res. fuzzy_search rules query threshold max_results = Inr [res]
               \<and> res_rule_number res = n
               \<and> similarity_score res = 1
               \<and> is_direct_rule res = Some True
               \<and> matched_language res = ''Direct Rule Number''))
         \<and> ((\<forall>r \<in> set rules. rule_number r \<noteq> n) \<longrightarrow>
              fuzzy_search rules query threshold max_results = Inr [])"
proof -
  have ne: "strip query \<noteq> []" using assms(1) by (auto simp: isdigit_def)
  show ?thesis
  proof (cases "search_by_rule_number rules n")
    case None
    have "\<forall>r \<in> set rules. rule_number r \<noteq> n"
      using None by (simp add: search_by_rule_number_None)
    then show ?thesis
      using assms ne by (simp add: fuzzy_search_def None)
  next
    case (Some r)
    from search_by_rule_number_Some[OF Some] Some show ?thesis
      using assms ne by (auto simp: fuzzy_search_def)
  qed
qed

text \<open>A string of at most 4300 decimal digits is numeric for both \<^verbatim>\<open>isdigit\<close> and \<^verbatim>\<open>int\<close>.\<close>

lemma decimal_is_digit: "is_decimal_char c \<Longrightarrow> is_digit_char c"
  unfolding is_decimal_char_def is_digit_char_def set_append Un_iff by (rule disjI1)

lemma py_int_decimal:
  assumes "s \<noteq> []" and "list_all is_decimal_char s" and "length s \<le> max_str_digits"
  shows "isdigit s \<and> (\<exists>n. py_int s = Inr n)"
proof -
  have "list_all is_digit_char s"
    using assms(2) by (simp add: list_all_iff decimal_is_digit)
  with assms show ?thesis by (simp add: isdigit_def py_int_def)
qed

lemma strip_replicate: "\<not> is_space c \<Longrightarrow> strip (replicate n c) = replicate n c"
  by (simp add: strip_def dropWhile_replicate)

lemma too_many_digits_raise:
  assumes "max_str_digits < n"
  shows "isdigit (strip (replicate n (CHR ''1'')))
         \<and> fuzzy_search rules (replicate n (CHR ''1'')) threshold max_results = Inl ValueError"
proof -
  have sp: "\<not> is_space (CHR ''1'')"
    by (simp add: is_space_def whitespace_def)
  have n: "0 < n" using assms by simp
  have s: "strip (replicate n (CHR ''1'')) = replicate n (CHR ''1'')"
    by (rule strip_replicate[OF sp])
  have ne: "replicate n (CHR ''1'') \<noteq> []" using n by simp
  have d: "isdigit (replicate n (CHR ''1''))"
    using n by (simp add: isdigit_def is_digit_char_def list_all_iff)
  have i: "py_int (replicate n (CHR ''1'')) = Inl ValueError"
    using n assms by (simp add: py_int_def)
  show ?thesis
    using n by (simp add: fuzzy_search_def s d i)
qed

text \<open>
  C3: a query that is purely numeric after trimming gives one direct result or the empty
  list. The code breaks this where \<^verbatim>\<open>isdigit\<close> and \<^verbatim>\<open>int\<close> disagree: on the query
  that is the superscript two, and on a query of 4301 digits, \<^verbatim>\<open>isdigit\<close> holds and
  \<^verbatim>\<open>fuzzy_search\<close> raises \<^verbatim>\<open>ValueError\<close>, for every corpus, threshold and
  \<^verbatim>\<open>max_results\<close>.
\<close>

theorem numeric_query_raises:
  "isdigit (strip [CHR 0xB2])
   \<and> fuzzy_search rules [CHR 0xB2] threshold max_results = Inl ValueError
   \<and> isdigit (strip (replicate 4301 (CHR ''1'')))
   \<and> fuzzy_search rules (replicate 4301 (CHR ''1'')) threshold max_results = Inl ValueError"
proof -
  have s2: "strip [CHR 0xB2] = [CHR 0xB2]"
    by (simp add: strip_def is_space_def whitespace_def)
  have d2: "isdigit [CHR 0xB2]"
    by (simp add: isdigit_def is_digit_char_def)
  have i2: "py_int [CHR 0xB2] = Inl ValueError"
    by (simp add: py_int_def is_decimal_char_def)
  have a: "isdigit (strip [CHR 0xB2])
           \<and> fuzzy_search rules [CHR 0xB2] threshold max_results = Inl ValueError"
    by (simp add: fuzzy_search_def s2 d2 i2)
  have "max_str_digits < 4301" by (simp add: max_str_digits_def)
  from too_many_digits_raise[OF this, of rules threshold max_results] a
  show ?thesis by (intro conjI) (elim conjE, assumption)+
qed

subsection \<open>The range of the scores\<close>

text \<open>The gap count only grows, so it is never negative.\<close>

lemma match_words_gaps_mono: "gaps \<le> snd (match_words text_words query_words matches gaps last_pos)"
proof (induction query_words arbitrary: matches gaps last_pos)
  case Nil
  show ?case by simp
next
  case (Cons w ws)
  show ?case
  proof (cases "find_in_window text_words w (max 0 (last_pos - 2))
                  (min (int (length text_words)) (last_pos + 3))")
    case None
    then show ?thesis by simp
  next
    case (Some k)
    have "gaps \<le> gaps + max 0 (k - last_pos - 1)" by simp
    also have "\<dots> \<le> snd (match_words text_words ws (matches + 1)
                              (gaps + max 0 (k - last_pos - 1)) (k + 1))"
      by (rule Cons.IH)
    finally show ?thesis using Some by simp
  qed
qed

lemma gap_score_range: "0 \<le> gaps \<Longrightarrow> 0.6 \<le> gap_score gaps \<and> gap_score gaps \<le> 0.9"
  by (simp add: gap_score_def Let_def min_def)

lemma sequence_step_range:
  assumes "0 \<le> best" "best \<le> 0.9"
  shows "0 \<le> sequence_step query_words text_words best i
         \<and> sequence_step query_words text_words best i \<le> 0.9"
proof -
  obtain m g where mg: "match_words text_words query_words 0 0 i = (m, g)"
    by (cases "match_words text_words query_words 0 0 i") auto
  have "0 \<le> g" using match_words_gaps_mono[of 0 text_words query_words 0 i] mg by simp
  from gap_score_range[OF this] assms show ?thesis
    by (auto simp: sequence_step_def mg)
qed

lemma foldl_sequence_step_range:
  "0 \<le> best \<Longrightarrow> best \<le> 0.9 \<Longrightarrow>
     0 \<le> foldl (sequence_step query_words text_words) best is
     \<and> foldl (sequence_step query_words text_words) best is \<le> 0.9"
proof (induction "is" arbitrary: best)
  case Nil
  then show ?case by simp
next
  case (Cons i "is")
  from sequence_step_range[OF Cons.prems, of query_words text_words i] Cons.IH
  show ?case by simp
qed

lemma calculate_sequence_similarity_range:
  "0 \<le> calculate_sequence_similarity query_words text_words
   \<and> calculate_sequence_similarity query_words text_words \<le> 0.9"
  using foldl_sequence_step_range[of 0 query_words text_words]
  by (simp add: calculate_sequence_similarity_def)

lemma word_matches_le: "word_matches query_words text \<le> length query_words"
  by (simp add: word_matches_def)

lemma partial_inner_range:
  "0 \<le> p \<Longrightarrow> p \<le> 0.3 \<Longrightarrow>
     0 \<le> partial_inner query_word text_words p \<and> partial_inner query_word text_words p \<le> 0.3"
  by (induction text_words) auto

lemma partial_loop_range:
  "0 \<le> p \<Longrightarrow> p \<le> 0.3 \<Longrightarrow>
     0 \<le> partial_loop query_words text_words p \<and> partial_loop query_words text_words p \<le> 0.3"
proof (induction query_words arbitrary: p)
  case Nil
  then show ?case by simp
next
  case (Cons w ws)
  from partial_inner_range[OF Cons.prems, of w text_words] Cons.IH show ?case by simp
qed

lemma intersection_le_union:
  "length (filter (\<lambda>w. w \<in> set text_words) (remdups query_words))
     \<le> length (remdups (query_words @ text_words))"
proof -
  have "length (filter (\<lambda>w. w \<in> set text_words) (remdups query_words))
          \<le> length (remdups query_words)"
    by (rule length_filter_le)
  also have "\<dots> = card (set query_words)" by (simp add: length_remdups_card_conv)
  also have "\<dots> \<le> card (set query_words \<union> set text_words)"
    by (rule card_mono) auto
  also have "\<dots> = length (remdups (query_words @ text_words))"
    by (simp add: length_remdups_card_conv)
  finally show ?thesis .
qed

text \<open>
  The word overlap as the specification words it: the two word lists as sets, the size of
  the intersection over the size of the union, and 0 when the union is empty.
\<close>

definition word_jaccard :: "string list \<Rightarrow> string list \<Rightarrow> real" where
  "word_jaccard query_words text_words =
     (if set query_words \<union> set text_words = {} then 0
      else real (card (set query_words \<inter> set text_words))
           / real (card (set query_words \<union> set text_words)))"

lemma word_jaccard_range: "0 \<le> word_jaccard qs ts \<and> word_jaccard qs ts \<le> 1"
proof -
  have "card (set qs \<inter> set ts) \<le> card (set qs \<union> set ts)"
    by (rule card_mono) auto
  then show ?thesis
    by (auto simp: word_jaccard_def divide_le_eq_1)
qed

lemma fallback_score_words:
  assumes "query_words \<noteq> []"
  shows "fallback_score query query_words text =
           ratio query text * 0.15
           + word_jaccard query_words (py_split text) * 0.25
           + partial_loop query_words (remdups (py_split text)) 0 * 0.25"
proof -
  have i: "length (filter (\<lambda>w. w \<in> set (py_split text)) (remdups query_words))
             = card (set query_words \<inter> set (py_split text))"
  proof -
    have "card (set (filter (\<lambda>w. w \<in> set (py_split text)) (remdups query_words)))
            = length (filter (\<lambda>w. w \<in> set (py_split text)) (remdups query_words))"
      by (rule distinct_card) simp
    moreover have "set (filter (\<lambda>w. w \<in> set (py_split text)) (remdups query_words))
                 = set query_words \<inter> set (py_split text)" by auto
    ultimately show ?thesis by (simp only:)
  qed
  have u: "length (remdups (query_words @ remdups (py_split text)))
             = card (set query_words \<union> set (py_split text))"
    by (simp add: length_remdups_card_conv)
  have ne: "remdups (query_words @ remdups (py_split text)) \<noteq> []"
    using assms by (cases query_words) auto
  have ne': "set query_words \<union> set (py_split text) \<noteq> {}" using assms by simp
  show ?thesis
    using assms ne ne' by (simp add: fallback_score_def Let_def i u word_jaccard_def)
qed

lemma fallback_score_range:
  "0 \<le> fallback_score query query_words text \<and> fallback_score query query_words text \<le> 1"
proof (cases "query_words = []")
  case True
  with ratio_bounds[of query "text"] show ?thesis by (simp add: fallback_score_def)
next
  case False
  from ratio_bounds[of query "text"] word_jaccard_range[of query_words "py_split text"]
       partial_loop_range[of 0 query_words "remdups (py_split text)"]
  show ?thesis by (simp add: fallback_score_words[OF False])
qed

lemma calculate_similarity_range:
  "0 \<le> calculate_similarity query text \<and> calculate_similarity query text \<le> 1"
proof -
  let ?qw = "py_split query"
  have m: "real (word_matches ?qw text) / real (length ?qw) \<le> 1"
          "0 \<le> real (word_matches ?qw text) / real (length ?qw)"
    using word_matches_le[of "?qw" "text"] by (simp_all add: divide_le_eq_1)
  from calculate_sequence_similarity_range[of "?qw" "py_split text"]
       fallback_score_range[of query "?qw" "text"] m
  show ?thesis
    by (simp add: calculate_similarity_def Let_def)
qed


subsection \<open>What the loop of \<^verbatim>\<open>fuzzy_search\<close> collects\<close>

text \<open>The score and the dictionary that one round of the loop builds for a rule.\<close>

definition best_score :: "string \<Rightarrow> rule \<Rightarrow> real" where
  "best_score query_lower r =
     max (calculate_similarity query_lower (lower (text_eng r)))
         (calculate_similarity query_lower (lower (text_rus r)))"

definition fuzzy_result :: "string \<Rightarrow> rule \<Rightarrow> match_result" where
  "fuzzy_result query_lower r =
     \<lparr> res_rule_number = rule_number r,
       res_text_eng = text_eng r,
       res_text_rus = text_rus r,
       similarity_score = best_score query_lower r,
       matched_language =
         (if calculate_similarity query_lower (lower (text_eng r))
               > calculate_similarity query_lower (lower (text_rus r))
          then ''English'' else ''Russian''),
       is_direct_rule = Some False \<rparr>"

lemma fuzzy_loop_eq:
  "fuzzy_loop rules q threshold results =
     results @ map (fuzzy_result q) (filter (\<lambda>r. best_score q r \<ge> threshold) rules)"
  by (induction rules arbitrary: results)
     (simp_all add: Let_def best_score_def fuzzy_result_def)

lemma set_sort_reverse: "set (sort_reverse results) = set results"
  by (simp add: sort_reverse_def)

lemma set_slice_to: "set (slice_to k xs) \<subseteq> set xs"
  by (auto simp: slice_to_def dest: in_set_takeD)

lemma best_score_range: "0 \<le> best_score q r \<and> best_score q r \<le> 1"
  using calculate_similarity_range[of q "lower (text_eng r)"]
        calculate_similarity_range[of q "lower (text_rus r)"]
  by (auto simp: best_score_def max_def)

lemma fuzzy_search_results:
  assumes "fuzzy_search rules query threshold max_results = Inr results"
    and "res \<in> set results"
  shows "(isdigit (strip query) \<and> similarity_score res = 1 \<and> is_direct_rule res = Some True)
         \<or> (\<not> isdigit (strip query)
              \<and> (\<exists>r \<in> set rules. res = fuzzy_result (strip (lower query)) r
                                  \<and> best_score (strip (lower query)) r \<ge> threshold))"
proof (cases "strip query = []")
  case True
  with assms show ?thesis by (auto simp: fuzzy_search_def)
next
  case ne: False
  show ?thesis
  proof (cases "isdigit (strip query)")
    case True
    with assms ne show ?thesis
      by (auto simp: fuzzy_search_def split: option.splits sum.splits)
  next
    case False
    with assms ne have "res \<in> set (slice_to max_results
                          (sort_reverse (fuzzy_loop rules (strip (lower query)) threshold [])))"
      by (auto simp: fuzzy_search_def Let_def)
    with set_slice_to[of max_results "sort_reverse (fuzzy_loop rules (strip (lower query)) threshold [])"]
    have "res \<in> set (fuzzy_loop rules (strip (lower query)) threshold [])"
      by (auto simp: set_sort_reverse)
    with False show ?thesis by (auto simp: fuzzy_loop_eq)
  qed
qed

text \<open>
  C1: for every query and every text the score of the cascade lies in the closed interval
  from 0 to 1, and so does the score of every result that \<^verbatim>\<open>fuzzy_search\<close> returns.
\<close>

theorem similarity_score_in_unit_interval:
  "(0 \<le> calculate_similarity query text \<and> calculate_similarity query text \<le> 1)
   \<and> (\<forall>results. fuzzy_search rules query' threshold max_results = Inr results \<longrightarrow>
         (\<forall>res \<in> set results. 0 \<le> similarity_score res \<and> similarity_score res \<le> 1))"
proof -
  have "0 \<le> similarity_score res \<and> similarity_score res \<le> 1"
    if "fuzzy_search rules query' threshold max_results = Inr results" "res \<in> set results"
    for results res
    using fuzzy_search_results[OF that] best_score_range
    by (auto simp: fuzzy_result_def)
  with calculate_similarity_range[of query "text"] show ?thesis by blast
qed

theorem similarity_score_witness:
  "map res_rule_number (projr (fuzzy_search example_rules ''your legs'' 0.5 10)) = [6]
   \<and> 0 \<le> similarity_score (hd (projr (fuzzy_search example_rules ''your legs'' 0.5 10)))
   \<and> similarity_score (hd (projr (fuzzy_search example_rules ''your legs'' 0.5 10))) \<le> 1
   \<and> 0 \<le> calculate_similarity ''helmet'' ''always wear a helmut''
   \<and> calculate_similarity ''helmet'' ''always wear a helmut'' \<le> 1"
proof -
  define r where "r = fuzzy_search example_rules ''your legs'' 0.5 10"
  have n: "map res_rule_number (projr r) = [6]" unfolding r_def by code_simp
  have "\<not> isl r" unfolding r_def by code_simp
  then have e: "r = Inr (projr r)" by simp
  from n have h: "hd (projr r) \<in> set (projr r)" by (cases "projr r") auto
  note t = similarity_score_in_unit_interval
         [of "''helmet''" "''always wear a helmut''" example_rules "''your legs''" "0.5" 10,
          folded r_def]
  from t have c: "0 \<le> calculate_similarity ''helmet'' ''always wear a helmut''
                  \<and> calculate_similarity ''helmet'' ''always wear a helmut'' \<le> 1"
    by (rule conjunct1)
  from t[THEN conjunct2, rule_format, OF e h]
  have b: "0 \<le> similarity_score (hd (projr r)) \<and> similarity_score (hd (projr r)) \<le> 1" .
  from n b c show ?thesis unfolding r_def by (intro conjI) (elim conjE, assumption)+
qed

subsection \<open>The fallback branch\<close>

text \<open>No earlier branch of the cascade fires: the negations of the conditions of methods 1 to 4.\<close>

definition reaches_fallback :: "string \<Rightarrow> string \<Rightarrow> bool" where
  "reaches_fallback query text =
     (let query_words = py_split query;
          n = length query_words;
          matches = word_matches query_words text
      in \<not> str_in query text
         \<and> \<not> (n > 1 \<and> calculate_sequence_similarity query_words (py_split text) > 0.8)
         \<and> \<not> (n > 1 \<and> matches = n)
         \<and> \<not> (n > 1 \<and> real matches > real n * 0.7)
         \<and> \<not> (n = 1 \<and> str_in (query_words ! 0) text))"

text \<open>
  The partial-substring score and the weighted sum as the specification words them: 0.3 if
  some query word is a substring of some text word or the other way round, 0.0 otherwise.
\<close>

definition partial_substring :: "string list \<Rightarrow> string list \<Rightarrow> real" where
  "partial_substring query_words text_words =
     (if list_ex (\<lambda>q. list_ex (\<lambda>t. str_in q t \<or> str_in t q) text_words) query_words
      then 0.3 else 0.0)"

definition composite :: "string \<Rightarrow> string \<Rightarrow> real" where
  "composite query text =
     ratio query text * 0.15
     + word_jaccard (py_split query) (py_split text) * 0.25
     + partial_substring (py_split query) (py_split text) * 0.25"

lemma partial_inner_eq:
  "p \<le> 0.3 \<Longrightarrow>
     partial_inner q text_words p
       = (if list_ex (\<lambda>t. str_in q t \<or> str_in t q) text_words then 0.3 else p)"
  by (induction text_words) auto

lemma partial_loop_eq:
  "p \<le> 0.3 \<Longrightarrow>
     partial_loop query_words text_words p
       = (if list_ex (\<lambda>q. list_ex (\<lambda>t. str_in q t \<or> str_in t q) text_words) query_words
          then 0.3 else p)"
proof (induction query_words arbitrary: p)
  case Nil
  show ?case by simp
next
  case (Cons q qs)
  show ?case
  proof (cases "list_ex (\<lambda>t. str_in q t \<or> str_in t q) text_words")
    case True
    with Cons.prems have pi: "partial_inner q text_words p = 0.3" by (simp add: partial_inner_eq)
    have "partial_loop (q # qs) text_words p = partial_loop qs text_words 0.3"
      by (simp only: partial_loop.simps pi)
    also have "\<dots> = 0.3" using Cons.IH[of "0.3"] by simp
    finally show ?thesis using True by simp
  next
    case False
    with Cons.prems have pi: "partial_inner q text_words p = p" by (simp add: partial_inner_eq)
    have "partial_loop (q # qs) text_words p = partial_loop qs text_words p"
      by (simp only: partial_loop.simps pi)
    with Cons.IH[OF Cons.prems] False show ?thesis by simp
  qed
qed

lemma partial_loop_substring:
  "partial_loop query_words (remdups text_words) 0 = partial_substring query_words text_words"
  by (simp add: partial_loop_eq partial_substring_def list_ex_iff)

lemma reaches_fallback_score:
  "reaches_fallback query text \<Longrightarrow>
     calculate_similarity query text = fallback_score query (py_split query) text"
  by (auto simp: reaches_fallback_def calculate_similarity_def Let_def)

text \<open>
  C2, amended: in the fallback branch, for a query with at least one word, the result is
  edit ratio times 0.15 plus word overlap times 0.25 plus partial-substring score times
  0.25, with the partial-substring score 0.3 or 0.0 as stated, and it is at most 0.475.
  For a query without words the result is the edit ratio alone.
\<close>

theorem fallback_composite:
  assumes "reaches_fallback query text"
  shows "(py_split query \<noteq> [] \<longrightarrow>
            calculate_similarity query text = composite query text
            \<and> calculate_similarity query text \<le> 0.475)
         \<and> (py_split query = [] \<longrightarrow> calculate_similarity query text = ratio query text)"
proof -
  have "composite query text \<le> 0.475"
  proof -
    have "partial_substring (py_split query) (py_split text) \<le> 0.3"
      by (simp add: partial_substring_def)
    with ratio_bounds[of query "text"] word_jaccard_range[of "py_split query" "py_split text"]
    show ?thesis by (simp add: composite_def)
  qed
  moreover have "calculate_similarity query text = composite query text"
    if "py_split query \<noteq> []"
    using reaches_fallback_score[OF assms]
    by (simp only: fallback_score_words[OF that] partial_loop_substring composite_def)
  moreover have "calculate_similarity query text = ratio query text"
    if "py_split query = []"
    using reaches_fallback_score[OF assms] that by (simp add: fallback_score_def)
  ultimately show ?thesis by simp
qed

theorem fallback_composite_witness:
  "reaches_fallback ''helmet'' ''always wear a helmut''
   \<and> py_split ''helmet'' = [''helmet'']
   \<and> calculate_similarity ''helmet'' ''always wear a helmut''
       = composite ''helmet'' ''always wear a helmut''
   \<and> calculate_similarity ''helmet'' ''always wear a helmut'' \<le> 0.475
   \<and> reaches_fallback ''  '' '' ''
   \<and> py_split ''  '' = []
   \<and> calculate_similarity ''  '' '' '' = ratio ''  '' '' ''"
proof -
  have r1: "reaches_fallback ''helmet'' ''always wear a helmut''" by code_simp
  have r2: "reaches_fallback ''  '' '' ''" by code_simp
  have s1: "py_split ''helmet'' = [''helmet'']" by code_simp
  have s2: "py_split ''  '' = []" by code_simp
  from fallback_composite[OF r1] fallback_composite[OF r2] r1 r2 s1 s2
  show ?thesis by simp
qed

text \<open>
  C2 as stated fails for the query of two spaces against the text of one space: no earlier
  branch fires, the result is the edit ratio 2/3, the weighted sum is 1/10, and 2/3 is
  above 0.65.
\<close>

theorem fallback_composite_counterexample:
  "reaches_fallback ''  '' '' ''
   \<and> calculate_similarity ''  '' '' '' = 2 / 3
   \<and> composite ''  '' '' '' = 1 / 10
   \<and> calculate_similarity ''  '' '' '' > 0.65"
  by code_simp



subsection \<open>Ranking\<close>

text \<open>
  The results that pass the threshold, in corpus order: what the loop has appended when
  it ends.
\<close>

definition kept_results :: "rule list \<Rightarrow> string \<Rightarrow> real \<Rightarrow> match_result list" where
  "kept_results rules query_lower threshold =
     map (fuzzy_result query_lower) (filter (\<lambda>r. threshold \<le> best_score query_lower r) rules)"

lemma sort_reverse_sorted:
  "sorted_wrt (\<lambda>a b. similarity_score a \<ge> similarity_score b) (sort_reverse results)"
proof -
  have "sorted (map similarity_score (sort_key similarity_score (rev results)))"
    by (rule sorted_sort_key)
  then show ?thesis
    by (simp add: sort_reverse_def sorted_map sorted_wrt_rev)
qed

lemma sort_reverse_stable:
  "filter (\<lambda>res. similarity_score res = s) (sort_reverse results)
     = filter (\<lambda>res. similarity_score res = s) results"
proof -
  have "filter (\<lambda>res. similarity_score res = s) (sort_reverse results)
          = rev (filter (\<lambda>res. similarity_score res = s)
                   (sort_key similarity_score (rev results)))"
    by (simp add: sort_reverse_def rev_filter)
  also have "\<dots> = rev (filter (\<lambda>res. similarity_score res = s) (rev results))"
    by (simp only: sort_key_stable)
  also have "\<dots> = filter (\<lambda>res. similarity_score res = s) results"
    by (simp add: rev_filter)
  finally show ?thesis .
qed

lemma length_sort_reverse: "length (sort_reverse results) = length results"
  by (simp add: sort_reverse_def)

lemma slice_to_all: "int (length xs) \<le> k \<Longrightarrow> slice_to k xs = xs"
  by (simp add: slice_to_def)

lemma fuzzy_search_text:
  assumes "strip query \<noteq> []" "\<not> isdigit (strip query)"
  shows "fuzzy_search rules query threshold k
           = Inr (slice_to k (sort_reverse (kept_results rules (strip (lower query)) threshold)))"
  using assms by (simp add: fuzzy_search_def Let_def fuzzy_loop_eq kept_results_def)

lemma length_kept_results: "length (kept_results rules q threshold) \<le> length rules"
  by (simp add: kept_results_def)

text \<open>
  C5: for a non-empty, non-numeric query, \<^verbatim>\<open>fuzzy_search\<close> with \<^verbatim>\<open>max_results = k\<close>, the
  maximum number of results to return, returns a list that is sorted non-increasing by
  score and is the first \<open>k\<close> entries of the complete ranking (the call with
  \<^verbatim>\<open>max_results\<close> equal to the size of the corpus), so it has at most \<open>k\<close> entries in that
  order; the complete ranking is sorted as well and keeps results of equal score in
  corpus order.
\<close>

theorem fuzzy_search_ranking:
  assumes "strip query \<noteq> []" and "\<not> isdigit (strip query)"
  shows "\<exists>results ranked.
           fuzzy_search rules query threshold (int k) = Inr results
           \<and> fuzzy_search rules query threshold (int (length rules)) = Inr ranked
           \<and> sorted_wrt (\<lambda>a b. similarity_score a \<ge> similarity_score b) results
           \<and> sorted_wrt (\<lambda>a b. similarity_score a \<ge> similarity_score b) ranked
           \<and> (\<forall>s. filter (\<lambda>res. similarity_score res = s) ranked
                   = filter (\<lambda>res. similarity_score res = s)
                       (kept_results rules (strip (lower query)) threshold))
           \<and> results = take k ranked
           \<and> length results \<le> k"
proof -
  let ?ranked = "sort_reverse (kept_results rules (strip (lower query)) threshold)"
  have full: "fuzzy_search rules query threshold (int (length rules)) = Inr ?ranked"
    using length_kept_results[of rules "strip (lower query)" threshold]
    by (simp add: fuzzy_search_text[OF assms] slice_to_all length_sort_reverse)
  have k: "fuzzy_search rules query threshold (int k) = Inr (take k ?ranked)"
    by (simp add: fuzzy_search_text[OF assms] slice_to_def)
  have sr: "sorted_wrt (\<lambda>a b. similarity_score a \<ge> similarity_score b) ?ranked"
    by (rule sort_reverse_sorted)
  then have sk: "sorted_wrt (\<lambda>a b. similarity_score a \<ge> similarity_score b) (take k ?ranked)"
    by (rule sorted_wrt_take)
  have st: "\<forall>s. filter (\<lambda>res. similarity_score res = s) ?ranked
                 = filter (\<lambda>res. similarity_score res = s)
                     (kept_results rules (strip (lower query)) threshold)"
    by (simp add: sort_reverse_stable)
  have l: "length (take k ?ranked) \<le> k" by simp
  from full k sr sk st l show ?thesis by blast
qed

theorem fuzzy_search_ranking_witness:
  "strip ''You'' \<noteq> [] \<and> \<not> isdigit (strip ''You'')
   \<and> map res_rule_number (projr (fuzzy_search example_rules ''You'' 0.5 3)) = [6, 10]
   \<and> map res_rule_number (projr (fuzzy_search example_rules ''You'' 0.5 1)) = [6]
   \<and> (\<exists>results ranked.
         fuzzy_search example_rules ''You'' 0.5 1 = Inr results
         \<and> fuzzy_search example_rules ''You'' 0.5 3 = Inr ranked
         \<and> sorted_wrt (\<lambda>a b. similarity_score a \<ge> similarity_score b) results
         \<and> results = take 1 ranked
         \<and> length results \<le> 1)"
proof -
  have a: "strip ''You'' \<noteq> []" and b: "\<not> isdigit (strip ''You'')" by code_simp+
  have n: "map res_rule_number (projr (fuzzy_search example_rules ''You'' 0.5 3)) = [6, 10]"
    and m: "map res_rule_number (projr (fuzzy_search example_rules ''You'' 0.5 1)) = [6]"
    by code_simp+
  have r: "int (length example_rules) = 3" by (simp add: example_rules_def)
  from fuzzy_search_ranking[OF a b, of example_rules "0.5" 1, unfolded r]
  have "\<exists>results ranked.
         fuzzy_search example_rules ''You'' 0.5 1 = Inr results
         \<and> fuzzy_search example_rules ''You'' 0.5 3 = Inr ranked
         \<and> sorted_wrt (\<lambda>a b. similarity_score a \<ge> similarity_score b) results
         \<and> results = take 1 ranked
         \<and> length results \<le> 1"
    by (elim exE conjE) (simp only: int_ops, blast)
  with a b n m show ?thesis by (intro conjI)
qed

subsection \<open>Substrings\<close>

text \<open>\<^verbatim>\<open>q in t\<close> holds exactly when \<open>q\<close> occurs in \<open>t\<close> as a contiguous block.\<close>

lemma startswith_iff: "startswith q t \<longleftrightarrow> (\<exists>ss. t = q @ ss)"
  by (induction q t rule: startswith.induct) auto

lemma str_in_iff: "str_in q t \<longleftrightarrow> (\<exists>ps ss. t = ps @ q @ ss)"
proof (induction t)
  case Nil
  show ?case by auto
next
  case (Cons c cs)
  show ?case
  proof
    assume "str_in q (c # cs)"
    then consider "startswith q (c # cs)" | "str_in q cs" by auto
    then show "\<exists>ps ss. c # cs = ps @ q @ ss"
    proof cases
      case 1
      then obtain ss where "c # cs = q @ ss" by (auto simp: startswith_iff)
      then have "c # cs = [] @ q @ ss" by simp
      then show ?thesis by blast
    next
      case 2
      with Cons.IH obtain ps ss where "cs = ps @ q @ ss" by auto
      then have "c # cs = (c # ps) @ q @ ss" by simp
      then show ?thesis by blast
    qed
  next
    assume "\<exists>ps ss. c # cs = ps @ q @ ss"
    then obtain ps ss where e: "c # cs = ps @ q @ ss" by auto
    show "str_in q (c # cs)"
    proof (cases ps)
      case Nil
      with e have "startswith q (c # cs)" by (auto simp: startswith_iff)
      then show ?thesis by simp
    next
      case (Cons p ps')
      with e have "cs = ps' @ q @ ss" by simp
      with Cons.IH have "str_in q cs" by auto
      then show ?thesis by simp
    qed
  qed
qed

lemma str_in_Nil: "str_in [] t"
  by (cases t) simp_all

lemma calculate_similarity_substring: "str_in q t \<Longrightarrow> calculate_similarity q t = 1"
  by (simp add: calculate_similarity_def)

subsection \<open>Keyword search\<close>

text \<open>
  The specification's words: a rule qualifies if every keyword, lower-cased, is a
  substring of the lower-cased English text or of the lower-cased Russian text; its score
  is the mean over the keywords of the larger of the two cascade scores.
\<close>

definition qualifies :: "string list \<Rightarrow> rule \<Rightarrow> bool" where
  "qualifies keywords r =
     (\<forall>k \<in> set keywords. str_in (lower k) (lower (text_eng r))
                        \<or> str_in (lower k) (lower (text_rus r)))"

definition keyword_mean :: "string list \<Rightarrow> rule \<Rightarrow> real" where
  "keyword_mean keywords r =
     (\<Sum>k\<leftarrow>keywords. max (calculate_similarity (lower k) (lower (text_eng r)))
                        (calculate_similarity (lower k) (lower (text_rus r))))
     / real (length keywords)"

definition keyword_result :: "string list \<Rightarrow> rule \<Rightarrow> match_result" where
  "keyword_result keywords r =
     \<lparr> res_rule_number = rule_number r,
       res_text_eng = text_eng r,
       res_text_rus = text_rus r,
       similarity_score = keyword_mean keywords r,
       matched_language = ''Both'',
       is_direct_rule = None \<rparr>"

lemma all_present_iff:
  "all_present kws e r \<longleftrightarrow> (\<forall>k \<in> set kws. str_in (lower k) e \<or> str_in (lower k) r)"
  by (induction kws) (auto simp: Let_def)

lemma total_score_eq:
  "total_score kws e r acc
     = acc + (\<Sum>k\<leftarrow>kws. max (calculate_similarity (lower k) e)
                           (calculate_similarity (lower k) r))"
  by (induction kws arbitrary: acc) (simp_all add: Let_def)

lemma keywords_loop_eq:
  "keywords_loop rules keywords threshold results =
     results @ map (keyword_result keywords)
                 (filter (\<lambda>r. qualifies keywords r \<and> threshold \<le> keyword_mean keywords r) rules)"
  by (induction rules arbitrary: results)
     (simp_all add: Let_def all_present_iff total_score_eq qualifies_def keyword_mean_def
        keyword_result_def)

text \<open>
  C6: the output of \<^verbatim>\<open>search_by_keywords\<close> consists of exactly the rules that qualify
  (each keyword checked on its own, in either language) and whose mean score reaches the
  threshold, each with that mean as its score, sorted by \<^verbatim>\<open>sort(reverse=True)\<close>; nothing
  else is dropped, so there is no cap on the number of results.
\<close>

theorem search_by_keywords_all_present:
  assumes "keywords \<noteq> []"
  shows "search_by_keywords rules keywords threshold
           = sort_reverse (map (keyword_result keywords)
               (filter (\<lambda>r. qualifies keywords r \<and> threshold \<le> keyword_mean keywords r) rules))"
  using assms by (simp add: search_by_keywords_def keywords_loop_eq)

theorem search_by_keywords_witness:
  "[''harden'', ''KREPCHE''] \<noteq> []
   \<and> \<not> str_in (lower ''KREPCHE'') (lower (text_eng (example_rules ! 0)))
   \<and> \<not> str_in (lower ''harden'') (lower (text_rus (example_rules ! 0)))
   \<and> search_by_keywords example_rules [''harden'', ''KREPCHE''] 0.5
       = [keyword_result [''harden'', ''KREPCHE''] (example_rules ! 0)]
   \<and> keyword_mean [''harden'', ''KREPCHE''] (example_rules ! 0) = 1"
proof -
  have a: "\<not> str_in (lower ''KREPCHE'') (lower (text_eng (example_rules ! 0)))"
    and b: "\<not> str_in (lower ''harden'') (lower (text_rus (example_rules ! 0)))"
    by code_simp+
  have f: "filter (\<lambda>r. qualifies [''harden'', ''KREPCHE''] r
                        \<and> 0.5 \<le> keyword_mean [''harden'', ''KREPCHE''] r) example_rules
             = [example_rules ! 0]"
    by code_simp
  have m: "keyword_mean [''harden'', ''KREPCHE''] (example_rules ! 0) = 1"
    by code_simp
  have "search_by_keywords example_rules [''harden'', ''KREPCHE''] 0.5
          = [keyword_result [''harden'', ''KREPCHE''] (example_rules ! 0)]"
    using search_by_keywords_all_present[of "[''harden'', ''KREPCHE'']" example_rules "0.5"]
    unfolding f by (simp add: sort_reverse_def)
  with a b m show ?thesis by simp
qed


subsection \<open>The empty keyword\<close>

lemma sort_key_constant: "(\<forall>x \<in> set xs. f x = c) \<Longrightarrow> sort_key f xs = xs"
proof -
  assume a: "\<forall>x \<in> set xs. f x = c"
  then have "map f xs = replicate (length xs) c"
    by (simp add: map_replicate_const[symmetric] cong: map_cong)
  then have "sorted (map f xs)" by (simp add: sorted_replicate)
  then show ?thesis by (rule sort_key_id_if_sorted)
qed

lemma sort_reverse_constant:
  "(\<forall>res \<in> set results. similarity_score res = c) \<Longrightarrow> sort_reverse results = results"
  by (simp add: sort_reverse_def sort_key_constant[of _ _ c])

lemma lower_Nil: "lower '''' = []"
  by (simp add: lower_def)

text \<open>
  C10: the empty keyword is a substring of every text, so it passes the presence check
  for every rule and adding it to a keyword list does not change the check; it scores
  1.0 through the exact-substring branch; and \<^verbatim>\<open>search_by_keywords\<close> on the list that
  holds only the empty keyword, with a threshold of at most 1.0, returns every rule of
  the corpus, in corpus order, each with the score 1.0.
\<close>

theorem empty_keyword_matches_every_rule:
  "str_in (lower '''') eng_text \<and> str_in (lower '''') rus_text
   \<and> max (calculate_similarity (lower '''') eng_text) (calculate_similarity (lower '''') rus_text) = 1
   \<and> all_present kws eng_text rus_text = all_present ('''' # kws) eng_text rus_text
   \<and> (threshold \<le> 1 \<longrightarrow>
        search_by_keywords rules [''''] threshold
          = map (\<lambda>r. \<lparr> res_rule_number = rule_number r,
                        res_text_eng = text_eng r,
                        res_text_rus = text_rus r,
                        similarity_score = 1,
                        matched_language = ''Both'',
                        is_direct_rule = None \<rparr>) rules)"
proof -
  have s: "str_in (lower '''') t" for t :: string
    by (simp add: lower_Nil str_in_Nil)
  have c: "calculate_similarity (lower '''') t = 1" for t
    by (rule calculate_similarity_substring[OF s])
  have m: "keyword_mean [''''] r = 1" for r
    by (simp add: keyword_mean_def c)
  have q: "qualifies [''''] r" for r
    by (simp add: qualifies_def s)
  have kr: "keyword_result [''''] = (\<lambda>r. \<lparr> res_rule_number = rule_number r,
                        res_text_eng = text_eng r,
                        res_text_rus = text_rus r,
                        similarity_score = 1,
                        matched_language = ''Both'',
                        is_direct_rule = None \<rparr>)"
    by (rule ext) (simp add: keyword_result_def m)
  have "search_by_keywords rules [''''] threshold = map (keyword_result ['''']) rules"
    if "threshold \<le> 1"
  proof -
    have "search_by_keywords rules [''''] threshold = sort_reverse (map (keyword_result ['''']) rules)"
      using that by (simp add: search_by_keywords_def keywords_loop_eq q m)
    also have "\<dots> = map (keyword_result ['''']) rules"
      by (rule sort_reverse_constant[of _ 1]) (simp add: keyword_result_def m)
    finally show ?thesis .
  qed
  then show ?thesis
    using s c by (simp add: kr Let_def)
qed

theorem empty_keyword_witness:
  "(1::real) \<le> 1
   \<and> map res_rule_number (search_by_keywords example_rules [''''] 1) = [5, 6, 10]
   \<and> map similarity_score (search_by_keywords example_rules [''''] 1) = [1, 1, 1]"
  using empty_keyword_matches_every_rule[of "[]" "[]" "[]" 1 example_rules]
  by (simp add: example_rules_def)

subsection \<open>The fields of a result\<close>

lemma search_by_keywords_results:
  "res \<in> set (search_by_keywords rules kws threshold) \<Longrightarrow>
     \<exists>r \<in> set rules. res = keyword_result kws r"
  by (cases "kws = []")
     (auto simp: search_by_keywords_def keywords_loop_eq set_sort_reverse)

text \<open>
  C8, amended: every result of \<^verbatim>\<open>fuzzy_search\<close> carries the rule number, the two texts,
  the score, the language and the key \<^verbatim>\<open>is_direct_rule\<close>; every result of
  \<^verbatim>\<open>search_by_keywords\<close> carries the first five and has no key \<^verbatim>\<open>is_direct_rule\<close>.
  (The first five are fields of every record of the model.)
\<close>

theorem result_fields:
  "(\<forall>results. fuzzy_search rules query threshold max_results = Inr results \<longrightarrow>
      (\<forall>res \<in> set results. is_direct_rule res \<noteq> None))
   \<and> (\<forall>res \<in> set (search_by_keywords rules kws threshold'). is_direct_rule res = None)"
proof -
  have "is_direct_rule res \<noteq> None"
    if "fuzzy_search rules query threshold max_results = Inr results" "res \<in> set results"
    for results res
    using fuzzy_search_results[OF that] by (auto simp: fuzzy_result_def)
  moreover have "is_direct_rule res = None"
    if "res \<in> set (search_by_keywords rules kws threshold')" for res
    using search_by_keywords_results[OF that] by (auto simp: keyword_result_def)
  ultimately show ?thesis by blast
qed

theorem result_fields_witness:
  "map res_rule_number (projr (fuzzy_search example_rules ''go faster'' 0.5 10)) = [10]
   \<and> is_direct_rule (hd (projr (fuzzy_search example_rules ''go faster'' 0.5 10))) \<noteq> None
   \<and> search_by_keywords example_rules [''go'', ''faster''] 0.5 \<noteq> []
   \<and> is_direct_rule (hd (search_by_keywords example_rules [''go'', ''faster''] 0.5)) = None"
proof -
  define r where "r = fuzzy_search example_rules ''go faster'' 0.5 10"
  define ks where "ks = search_by_keywords example_rules [''go'', ''faster''] 0.5"
  have n: "map res_rule_number (projr r) = [10]" unfolding r_def by code_simp
  have "\<not> isl r" unfolding r_def by code_simp
  then have e: "r = Inr (projr r)" by simp
  from n have h: "hd (projr r) \<in> set (projr r)" by (cases "projr r") auto
  have c: "ks \<noteq> []" unfolding ks_def by code_simp
  note t = result_fields[of example_rules "''go faster''" "0.5" 10 "[''go'', ''faster'']" "0.5",
                         folded r_def ks_def]
  from t[THEN conjunct1, rule_format, OF e h]
  have x: "is_direct_rule (hd (projr r)) \<noteq> None" .
  from t[THEN conjunct2, rule_format, OF hd_in_set[OF c]]
  have y: "is_direct_rule (hd ks) = None" .
  from n x c y show ?thesis unfolding r_def ks_def by (intro conjI)
qed

text \<open>
  C8 as stated fails: the one result of the keyword search for \<^verbatim>\<open>go\<close> and \<^verbatim>\<open>faster\<close>
  has no key \<^verbatim>\<open>is_direct_rule\<close>.
\<close>

theorem result_fields_counterexample:
  "map res_rule_number (search_by_keywords example_rules [''go'', ''faster''] 0.5) = [10]
   \<and> map is_direct_rule (search_by_keywords example_rules [''go'', ''faster''] 0.5) = [None]"
  by code_simp



subsection \<open>The sequence matcher as the specification words it\<close>

text \<open>
  The search for a query word: the first index of the text inside the window from
  \<open>last_pos - 2\<close> up to, but excluding, \<open>last_pos + 3\<close> that holds the word.
\<close>

definition window_match :: "string list \<Rightarrow> string \<Rightarrow> int \<Rightarrow> nat option" where
  "window_match text_words w last_pos =
     (case filter (\<lambda>k. last_pos - 2 \<le> int k \<and> int k < last_pos + 3 \<and> text_words ! k = w)
             [0..<length text_words] of
        [] \<Rightarrow> None
      | k # _ \<Rightarrow> Some k)"

text \<open>
  The attempt from a position: the query words are matched in order, each from the
  position after the previous match; the outcome is the gap count, the sum over the matches
  of \<open>max 0 (matched index - last_pos - 1)\<close>, or nothing if some word is not found.
\<close>

fun match_from :: "string list \<Rightarrow> string list \<Rightarrow> int \<Rightarrow> int option" where
  "match_from text_words [] last_pos = Some 0"
| "match_from text_words (w # ws) last_pos =
     (case window_match text_words w last_pos of
        None \<Rightarrow> None
      | Some k \<Rightarrow>
          (case match_from text_words ws (int k + 1) of
             None \<Rightarrow> None
           | Some gaps \<Rightarrow> Some (max 0 (int k - last_pos - 1) + gaps)))"

text \<open>
  The score over a list of start positions: 0.0 for fewer than two query words, else the
  best of \<open>0.9 - min 0.3 (gaps * 0.1)\<close> over the start positions from which every query
  word matched, and 0.0 if there is none.
\<close>

definition sequence_score_over :: "nat list \<Rightarrow> string list \<Rightarrow> string list \<Rightarrow> real" where
  "sequence_score_over starts query_words text_words =
     (if length query_words < 2 then 0
      else
        (let scores = List.map_filter
                        (\<lambda>i. map_option (\<lambda>gaps. 0.9 - min 0.3 (real_of_int gaps * 0.1))
                               (match_from text_words query_words (int i))) starts
         in if scores = [] then 0 else Max (set scores)))"

lemma find_as_filter:
  "List.find P xs = (case filter P xs of [] \<Rightarrow> None | x # _ \<Rightarrow> Some x)"
  by (induction xs) auto

lemma filter_interval: "filter (\<lambda>k. lo \<le> k \<and> k < hi) [0..<n] = [lo..<min hi n]"
proof (induction n)
  case 0
  show ?case by simp
next
  case (Suc n)
  show ?case
  proof (cases "n < hi")
    case True
    then have m: "min hi n = n" "min hi (Suc n) = Suc n" by simp_all
    show ?thesis
      using Suc True by (cases "lo \<le> n") (simp_all add: m)
  next
    case False
    then have m: "min hi n = hi" "min hi (Suc n) = hi" by simp_all
    show ?thesis using Suc False by (simp add: m)
  qed
qed

lemma filter_window:
  "filter (\<lambda>k. last_pos - 2 \<le> int k \<and> int k < last_pos + 3 \<and> P k) [0..<n]
     = filter P [nat (max 0 (last_pos - 2)) ..< nat (min (int n) (last_pos + 3))]"
proof -
  have "filter (\<lambda>k. last_pos - 2 \<le> int k \<and> int k < last_pos + 3 \<and> P k) [0..<n]
          = filter (\<lambda>k. (nat (max 0 (last_pos - 2)) \<le> k \<and> k < nat (last_pos + 3)) \<and> P k) [0..<n]"
    by (rule filter_cong) auto
  also have "\<dots> = filter P (filter (\<lambda>k. nat (max 0 (last_pos - 2)) \<le> k \<and> k < nat (last_pos + 3)) [0..<n])"
    by simp
  also have "\<dots> = filter P [nat (max 0 (last_pos - 2)) ..< min (nat (last_pos + 3)) n]"
    by (simp only: filter_interval)
  also have "min (nat (last_pos + 3)) n = nat (min (int n) (last_pos + 3))" by auto
  finally show ?thesis .
qed

lemma find_in_window_match:
  "find_in_window text_words w (max 0 (last_pos - 2)) (min (int (length text_words)) (last_pos + 3))
     = map_option int (window_match text_words w last_pos)"
  by (simp only: find_in_window_def window_match_def find_as_filter filter_window)

lemma match_words_all:
  "match_from text_words query_words last_pos = Some g' \<Longrightarrow>
     match_words text_words query_words matches gaps last_pos
       = (matches + int (length query_words), gaps + g')"
proof (induction query_words arbitrary: matches gaps last_pos g')
  case Nil
  then show ?case by simp
next
  case (Cons w ws)
  from Cons.prems obtain k g where
    k: "window_match text_words w last_pos = Some k" and
    g: "match_from text_words ws (int k + 1) = Some g" and
    g': "g' = max 0 (int k - last_pos - 1) + g"
    by (auto split: option.splits)
  from Cons.IH[OF g, of "matches + 1" "gaps + max 0 (int k - last_pos - 1)"]
  show ?case by (simp add: find_in_window_match k g' Let_def)
qed

lemma match_words_some_missing:
  "match_from text_words query_words last_pos = None \<Longrightarrow>
     fst (match_words text_words query_words matches gaps last_pos)
       < matches + int (length query_words)"
proof (induction query_words arbitrary: matches gaps last_pos)
  case Nil
  then show ?case by simp
next
  case (Cons w ws)
  show ?case
  proof (cases "window_match text_words w last_pos")
    case None
    then show ?thesis by (simp add: find_in_window_match Let_def)
  next
    case (Some k)
    with Cons.prems have "match_from text_words ws (int k + 1) = None"
      by (auto split: option.splits)
    from Cons.IH[OF this, of "matches + 1" "gaps + max 0 (int k - last_pos - 1)"]
    show ?thesis by (simp add: find_in_window_match Some Let_def)
  qed
qed

lemma sequence_step_match_from:
  "sequence_step query_words text_words best i
     = (case match_from text_words query_words i of
          None \<Rightarrow> best
        | Some gaps \<Rightarrow> max best (0.9 - min 0.3 (real_of_int gaps * 0.1)))"
proof (cases "match_from text_words query_words i")
  case None
  from match_words_some_missing[OF None, of 0 0] show ?thesis
    by (auto simp: sequence_step_def None split: prod.splits)
next
  case (Some g)
  from match_words_all[OF Some, of 0 0] show ?thesis
    by (simp add: sequence_step_def Some gap_score_def Let_def)
qed

lemma foldl_sequence_step:
  "foldl (sequence_step query_words text_words) best (map int starts)
     = foldl max best
         (List.map_filter
            (\<lambda>i. map_option (\<lambda>gaps. 0.9 - min 0.3 (real_of_int gaps * 0.1))
                   (match_from text_words query_words (int i))) starts)"
proof (induction starts arbitrary: best)
  case Nil
  show ?case by (simp add: List.map_filter_simps)
next
  case (Cons i starts)
  show ?case
  proof (cases "match_from text_words query_words (int i)")
    case None
    then have "sequence_step query_words text_words best (int i) = best"
      by (simp add: sequence_step_match_from)
    with None show ?thesis by (simp add: List.map_filter_simps Cons.IH)
  next
    case (Some g)
    then have "sequence_step query_words text_words best (int i)
                 = max best (0.9 - min 0.3 (real_of_int g * 0.1))"
      by (simp add: sequence_step_match_from)
    with Some show ?thesis by (simp add: List.map_filter_simps Cons.IH)
  qed
qed

lemma foldl_max: "foldl max (b::real) xs = (if xs = [] then b else max b (Max (set xs)))"
proof (induction xs arbitrary: b)
  case Nil
  show ?case by simp
next
  case (Cons x xs)
  show ?case
    by (cases "xs = []") (simp_all add: Cons.IH max.assoc)
qed

lemma scores_positive:
  "x \<in> set (List.map_filter
              (\<lambda>i. map_option (\<lambda>gaps. 0.9 - min 0.3 (real_of_int gaps * 0.1)) (f i)) starts)
   \<Longrightarrow> (0::real) \<le> x"
  by (auto simp: List.map_filter_def min_def)

lemma sequence_similarity_foldl:
  assumes "\<not> length query_words < 2"
  shows "calculate_sequence_similarity query_words text_words
           = foldl max 0
               (List.map_filter
                  (\<lambda>i. map_option (\<lambda>gaps. 0.9 - min 0.3 (real_of_int gaps * 0.1))
                         (match_from text_words query_words (int i)))
                  [0 ..< length text_words + 1 - length query_words])"
proof -
  have "nat (int (length text_words) - int (length query_words) + 1)
          = length text_words + 1 - length query_words" by linarith
  then have "start_positions query_words text_words
               = map int [0 ..< length text_words + 1 - length query_words]"
    by (simp add: start_positions_def)
  with assms show ?thesis
    by (simp add: calculate_sequence_similarity_def foldl_sequence_step)
qed

text \<open>
  C4, amended: the sequence matcher returns 0.0 for fewer than two query words, and
  otherwise the best score over the start positions \<open>i\<close> with
  \<open>0 \<le> i \<le> len(text_words) - len(query_words)\<close>, with the window, the gap count and the
  score as stated, or 0.0 if no such start position matches all words.
\<close>

theorem sequence_matcher_refines:
  "calculate_sequence_similarity query_words text_words
     = sequence_score_over [0 ..< length text_words + 1 - length query_words]
         query_words text_words"
proof (cases "length query_words < 2")
  case True
  then show ?thesis by (simp add: calculate_sequence_similarity_def sequence_score_over_def)
next
  case False
  let ?scores = "List.map_filter
                   (\<lambda>i. map_option (\<lambda>gaps. 0.9 - min 0.3 (real_of_int gaps * 0.1))
                          (match_from text_words query_words (int i)))
                   [0 ..< length text_words + 1 - length query_words]"
  have "calculate_sequence_similarity query_words text_words = foldl max 0 ?scores"
    by (rule sequence_similarity_foldl[OF False])
  also have "\<dots> = (if ?scores = [] then 0 else Max (set ?scores))"
  proof (cases "?scores = []")
    case True
    then show ?thesis by (simp add: foldl_max)
  next
    case ne: False
    then obtain x where x: "x \<in> set ?scores" by (cases ?scores) auto
    then have "0 \<le> x" by (rule scores_positive)
    also have "x \<le> Max (set ?scores)" using x by simp
    finally have "max 0 (Max (set ?scores)) = Max (set ?scores)" by simp
    with ne show ?thesis by (simp add: foldl_max)
  qed
  finally show ?thesis using False by (simp add: sequence_score_over_def Let_def)
qed

text \<open>
  C4 as stated, over every start position of the text, fails: the query \<^verbatim>\<open>a a\<close> matches
  the one-word text \<^verbatim>\<open>a\<close> from position 0 (the window reaches back), and the query
  \<^verbatim>\<open>a b c\<close> matches the text \<^verbatim>\<open>a a x c b\<close> from position 3, but the loop never starts
  at these positions and returns 0.0.
\<close>

theorem sequence_matcher_counterexample:
  "calculate_sequence_similarity [''a'', ''a''] [''a''] = 0
   \<and> sequence_score_over [0 ..< length [''a'']] [''a'', ''a''] [''a''] = 0.9
   \<and> calculate_sequence_similarity [''a'', ''b'', ''c''] [''a'', ''a'', ''x'', ''c'', ''b''] = 0
   \<and> sequence_score_over [0 ..< length [''a'', ''a'', ''x'', ''c'', ''b'']]
        [''a'', ''b'', ''c''] [''a'', ''a'', ''x'', ''c'', ''b''] = 0.8"
  by code_simp


subsection \<open>Gaps and inserted words\<close>

lemma window_match_find:
  "window_match text_words w last_pos
     = List.find (\<lambda>k. last_pos - 2 \<le> int k \<and> int k < last_pos + 3 \<and> text_words ! k = w)
         [0..<length text_words]"
  by (simp only: window_match_def find_as_filter)

lemma window_match_Some_iff:
  "window_match text_words w last_pos = Some k \<longleftrightarrow>
     k < length text_words \<and> last_pos - 2 \<le> int k \<and> int k < last_pos + 3 \<and> text_words ! k = w
     \<and> (\<forall>j<k. \<not> (last_pos - 2 \<le> int j \<and> int j < last_pos + 3 \<and> text_words ! j = w))"
  unfolding window_match_find find_Some_iff
  by (auto simp: nth_upt)

lemma window_match_None_iff:
  "window_match text_words w last_pos = None \<longleftrightarrow>
     (\<forall>k < length text_words.
        \<not> (last_pos - 2 \<le> int k \<and> int k < last_pos + 3 \<and> text_words ! k = w))"
  unfolding window_match_find find_None_iff by auto

text \<open>The word at index \<open>k2\<close> is found from \<open>last_pos\<close>, at \<open>k2\<close> or before it.\<close>

lemma window_match_upto:
  assumes "k2 < length text_words" "text_words ! k2 = w"
    "last_pos - 2 \<le> int k2" "int k2 < last_pos + 3"
  shows "\<exists>k. window_match text_words w last_pos = Some k \<and> k \<le> k2"
proof (cases "window_match text_words w last_pos")
  case None
  with assms show ?thesis by (auto simp: window_match_None_iff)
next
  case (Some k)
  then have "\<forall>j<k. \<not> (last_pos - 2 \<le> int j \<and> int j < last_pos + 3 \<and> text_words ! j = w)"
    by (simp add: window_match_Some_iff)
  with assms have "\<not> k2 < k" by blast
  with Some show ?thesis by simp
qed

lemma inserted_match:
  assumes tw: "text_words = pre @ [a, x, b] @ post"
    and side: "post \<noteq> [] \<or> pre = [] \<or> last pre \<noteq> a"
  shows "\<exists>i < length text_words + 1 - 2. match_from text_words [a, b] (int i) = Some 0"
proof -
  let ?p = "length pre"
  have n: "length text_words = ?p + 3 + length post" by (simp add: tw)
  have pa: "text_words ! ?p = a" by (simp add: tw)
  have pb: "text_words ! (?p + 2) = b" by (simp add: tw nth_append)
  obtain k where k: "window_match text_words b (int ?p + 1) = Some k" "k \<le> ?p + 2"
    using window_match_upto[of "?p + 2" text_words b "int ?p + 1"] pb n by auto
  have second: "match_from text_words [b] (int ?p + 1) = Some 0"
    using k by simp
  show ?thesis
  proof (cases "post \<noteq> []")
    case True
    then have r: "?p + 2 < length text_words + 1 - 2" using n by (cases post) auto
    have "window_match text_words a (int (?p + 2)) = Some ?p"
      using pa n by (simp add: window_match_Some_iff)
    then have "match_from text_words [a, b] (int (?p + 2)) = Some 0"
      using second by simp
    with r show ?thesis by blast
  next
    case False
    with side have na: "pre = [] \<or> last pre \<noteq> a" by simp
    have r: "?p + 1 < length text_words + 1 - 2" using n by simp
    have "text_words ! j \<noteq> a" if "j < ?p" "int (?p + 1) - 2 \<le> int j" for j
    proof -
      from that have j: "j = ?p - 1" and ne: "pre \<noteq> []" by auto
      with na have "pre ! j \<noteq> a" by (simp add: last_conv_nth)
      with that show ?thesis by (simp add: tw nth_append)
    qed
    then have "window_match text_words a (int (?p + 1)) = Some ?p"
      using pa n by (auto simp: window_match_Some_iff)
    then have "match_from text_words [a, b] (int (?p + 1)) = Some 0"
      using second by simp
    with r show ?thesis by blast
  qed
qed

lemma far_apart_no_match:
  assumes "\<forall>k1 < length text_words. \<forall>k2 < length text_words.
             text_words ! k1 = c \<and> text_words ! k2 = d \<longrightarrow>
               int k2 < int k1 - 1 \<or> int k1 + 3 < int k2"
  shows "match_from text_words [c, d] last_pos = None"
proof (cases "window_match text_words c last_pos")
  case None
  then show ?thesis by simp
next
  case (Some k1)
  then have k1: "k1 < length text_words" "text_words ! k1 = c"
    by (simp_all add: window_match_Some_iff)
  have "window_match text_words d (int k1 + 1) = None"
  proof (rule ccontr)
    assume "window_match text_words d (int k1 + 1) \<noteq> None"
    then obtain k2 where "window_match text_words d (int k1 + 1) = Some k2" by auto
    then have "k2 < length text_words" "text_words ! k2 = d"
      "int k1 + 1 - 2 \<le> int k2" "int k2 < int k1 + 1 + 3"
      by (simp_all add: window_match_Some_iff)
    with assms k1 show False by force
  qed
  with Some show ?thesis by simp
qed

lemma sequence_similarity_full:
  assumes "2 \<le> length query_words"
    and "i < length text_words + 1 - length query_words"
    and "match_from text_words query_words (int i) = Some 0"
  shows "calculate_sequence_similarity query_words text_words = 0.9"
proof -
  let ?f = "\<lambda>i. map_option (\<lambda>gaps. 0.9 - min 0.3 (real_of_int gaps * 0.1))
                   (match_from text_words query_words (int i))"
  let ?scores = "List.map_filter ?f [0 ..< length text_words + 1 - length query_words]"
  have "?f i = Some 0.9" using assms(3) by simp
  then have mem: "0.9 \<in> set ?scores"
    using assms(2) by (auto simp: List.map_filter_def intro!: image_eqI[of _ _ i])
  then have ne: "?scores \<noteq> []" by auto
  have ge: "0.9 \<le> Max (set ?scores)" by (rule Max_ge[OF _ mem]) simp
  have "calculate_sequence_similarity query_words text_words = max 0 (Max (set ?scores))"
    using assms(1) ne by (simp add: sequence_similarity_foldl foldl_max)
  with ge have "0.9 \<le> calculate_sequence_similarity query_words text_words" by simp
  with calculate_sequence_similarity_range[of query_words text_words] show ?thesis by simp
qed

lemma sequence_similarity_none:
  assumes "\<forall>i. match_from text_words query_words (int i) = None"
  shows "calculate_sequence_similarity query_words text_words = 0"
proof (cases "length query_words < 2")
  case False
  have "List.map_filter
          (\<lambda>i. map_option (\<lambda>gaps. 0.9 - min 0.3 (real_of_int gaps * 0.1))
                 (match_from text_words query_words (int i)))
          [0 ..< length text_words + 1 - length query_words] = []"
    using assms by (simp add: List.map_filter_def)
  then show ?thesis
    by (simp add: sequence_similarity_foldl[OF False])
next
  case True
  then show ?thesis by (simp add: calculate_sequence_similarity_def)
qed

lemma branch_fires:
  assumes "2 \<le> length (py_split q)"
    and "calculate_sequence_similarity (py_split q) (py_split t) = 0.9"
  shows "0.9 \<le> calculate_similarity q t"
  using assms by (simp add: calculate_similarity_def Let_def)

lemma branch_does_not_fire:
  assumes w: "2 \<le> length (py_split q)" and ns: "\<not> str_in q t"
    and s: "calculate_sequence_similarity (py_split q) (py_split t) \<le> 0.8"
  shows "calculate_similarity q t \<le> 0.7"
proof -
  let ?qw = "py_split q"
  have ne: "?qw \<noteq> []" using w by auto
  have m: "real (word_matches ?qw t) / real (length ?qw) \<le> 1"
    using word_matches_le[of ?qw t] w by (simp add: divide_le_eq_1)
  have "fallback_score q ?qw t \<le> 0.475"
    using ratio_bounds[of q t] word_jaccard_range[of ?qw "py_split t"]
          partial_loop_range[of 0 ?qw "remdups (py_split t)"]
    by (simp add: fallback_score_words[OF ne])
  with m w ns s show ?thesis
    by (simp add: calculate_similarity_def Let_def)
qed

lemma gap_score_mono: "g \<le> g' \<Longrightarrow> gap_score g' \<le> gap_score g"
  by (simp add: gap_score_def Let_def min_def)

lemma gap_penalty_cap: "0.9 - gap_score g \<le> 0.3"
  by (simp add: gap_score_def Let_def)

text \<open>
  C7, amended: the sequence score is non-increasing in the gap count and the penalty
  is at most 0.3. If the words of a two-word query stand in the text with one word
  between them, and this occurrence is not at the end of the text or the text word right
  before it is not the first query word, then the sequence matcher returns 0.9
  and the scorer at least 0.9. If the words of a two-word query that is not a substring
  of its text lie far apart (no occurrence of the second word from one position before
  to three positions after an occurrence of the first), the sequence matcher returns 0.0
  and the scorer at most 0.7. So the first query scores higher than the second.
\<close>

theorem gap_penalty_and_insertion:
  "(g \<le> g' \<longrightarrow> gap_score g' \<le> gap_score g)
   \<and> 0.9 - gap_score g \<le> 0.3
   \<and> (py_split q = [a, b] \<and> py_split t = pre @ [a, x, b] @ post
        \<and> (post \<noteq> [] \<or> pre = [] \<or> last pre \<noteq> a)
        \<and> py_split q' = [c, d] \<and> \<not> str_in q' t'
        \<and> (\<forall>k1 < length (py_split t'). \<forall>k2 < length (py_split t').
              py_split t' ! k1 = c \<and> py_split t' ! k2 = d \<longrightarrow>
                int k2 < int k1 - 1 \<or> int k1 + 3 < int k2)
      \<longrightarrow> calculate_sequence_similarity (py_split q) (py_split t) = 0.9
          \<and> 0.9 \<le> calculate_similarity q t
          \<and> calculate_sequence_similarity (py_split q') (py_split t') = 0
          \<and> calculate_similarity q' t' \<le> 0.7
          \<and> calculate_similarity q' t' < calculate_similarity q t)"
proof (intro conjI impI)
  show "gap_score g' \<le> gap_score g" if "g \<le> g'" using that by (rule gap_score_mono)
  show "0.9 - gap_score g \<le> 0.3" by (rule gap_penalty_cap)
next
  assume h: "py_split q = [a, b] \<and> py_split t = pre @ [a, x, b] @ post
        \<and> (post \<noteq> [] \<or> pre = [] \<or> last pre \<noteq> a)
        \<and> py_split q' = [c, d] \<and> \<not> str_in q' t'
        \<and> (\<forall>k1 < length (py_split t'). \<forall>k2 < length (py_split t').
              py_split t' ! k1 = c \<and> py_split t' ! k2 = d \<longrightarrow>
                int k2 < int k1 - 1 \<or> int k1 + 3 < int k2)"
  then have q: "py_split q = [a, b]" and q': "py_split q' = [c, d]" by simp_all
  from h inserted_match[of "py_split t" pre a x b post]
  obtain i where i: "i < length (py_split t) + 1 - 2"
      "match_from (py_split t) [a, b] (int i) = Some 0" by blast
  have s: "calculate_sequence_similarity (py_split q) (py_split t) = 0.9"
    using sequence_similarity_full[of "[a, b]" i "py_split t"] i by (simp add: q)
  have hi: "0.9 \<le> calculate_similarity q t"
    by (rule branch_fires[OF _ s]) (simp add: q)
  have "match_from (py_split t') [c, d] (int j) = None" for j
    using h far_apart_no_match[of "py_split t'" c d "int j"] by blast
  then have s': "calculate_sequence_similarity (py_split q') (py_split t') = 0"
    using sequence_similarity_none[of "py_split t'" "[c, d]"] by (simp add: q')
  from h have ns: "\<not> str_in q' t'" by simp
  have le: "calculate_sequence_similarity (py_split q') (py_split t') \<le> 0.8"
    using s' by simp
  have lo: "calculate_similarity q' t' \<le> 0.7"
    by (rule branch_does_not_fire[OF _ ns le]) (simp add: q')
  show "calculate_sequence_similarity (py_split q) (py_split t) = 0.9" by (rule s)
  show "0.9 \<le> calculate_similarity q t" by (rule hi)
  show "calculate_sequence_similarity (py_split q') (py_split t') = 0" by (rule s')
  show "calculate_similarity q' t' \<le> 0.7" by (rule lo)
  show "calculate_similarity q' t' < calculate_similarity q t" using hi lo by simp
qed


theorem gap_penalty_and_insertion_witness:
  "gap_score 2 \<le> gap_score 1
   \<and> calculate_sequence_similarity (py_split ''a b'') (py_split ''a y a x b'') = 0.9
   \<and> 0.9 \<le> calculate_similarity ''a b'' ''a y a x b''
   \<and> calculate_sequence_similarity (py_split ''a b'') (py_split ''a x x x x b'') = 0
   \<and> calculate_similarity ''a b'' ''a x x x x b'' \<le> 0.7
   \<and> calculate_similarity ''a b'' ''a x x x x b'' < calculate_similarity ''a b'' ''a y a x b''"
proof -
  have q: "py_split ''a b'' = [''a'', ''b'']" by code_simp
  have t: "py_split ''a y a x b'' = [''a'', ''y''] @ [''a'', ''x'', ''b''] @ []" by code_simp
  have t': "py_split ''a x x x x b'' = [''a'', ''x'', ''x'', ''x'', ''x'', ''b'']" by code_simp
  have ns: "\<not> str_in ''a b'' ''a x x x x b''" by code_simp
  have side: "[] \<noteq> ([] :: string list) \<or> [''a'', ''y''] = [] \<or> last [''a'', ''y''] \<noteq> ''a''"
    by simp
  have far: "\<forall>k1 < length (py_split ''a x x x x b''). \<forall>k2 < length (py_split ''a x x x x b'').
               py_split ''a x x x x b'' ! k1 = ''a'' \<and> py_split ''a x x x x b'' ! k2 = ''b'' \<longrightarrow>
                 int k2 < int k1 - 1 \<or> int k1 + 3 < int k2"
    unfolding t' by (auto simp: less_Suc_eq nth_Cons' eval_nat_numeral)
  note th = gap_penalty_and_insertion
         [of 1 2 "''a b''" "''a''" "''b''" "''a y a x b''" "[''a'', ''y'']" "''x''" "[]"
             "''a b''" "''a''" "''b''" "''a x x x x b''"]
  have le: "(1::int) \<le> 2" by simp
  from th le have g: "gap_score 2 \<le> gap_score 1" by blast
  have hyp: "py_split ''a b'' = [''a'', ''b'']
        \<and> py_split ''a y a x b'' = [''a'', ''y''] @ [''a'', ''x'', ''b''] @ []
        \<and> ([] \<noteq> ([] :: string list) \<or> [''a'', ''y''] = [] \<or> last [''a'', ''y''] \<noteq> ''a'')
        \<and> py_split ''a b'' = [''a'', ''b''] \<and> \<not> str_in ''a b'' ''a x x x x b''
        \<and> (\<forall>k1 < length (py_split ''a x x x x b''). \<forall>k2 < length (py_split ''a x x x x b'').
              py_split ''a x x x x b'' ! k1 = ''a'' \<and> py_split ''a x x x x b'' ! k2 = ''b'' \<longrightarrow>
                int k2 < int k1 - 1 \<or> int k1 + 3 < int k2)"
    using q t ns side far by (intro conjI)
  have c: "calculate_sequence_similarity (py_split ''a b'') (py_split ''a y a x b'') = 0.9
          \<and> 0.9 \<le> calculate_similarity ''a b'' ''a y a x b''
          \<and> calculate_sequence_similarity (py_split ''a b'') (py_split ''a x x x x b'') = 0
          \<and> calculate_similarity ''a b'' ''a x x x x b'' \<le> 0.7
          \<and> calculate_similarity ''a b'' ''a x x x x b'' < calculate_similarity ''a b'' ''a y a x b''"
    by (rule mp[OF th[THEN conjunct2, THEN conjunct2] hyp])
  from g c show ?thesis by blast
qed

text \<open>
  C7 as stated fails for the query \<^verbatim>\<open>a b\<close> and the text \<^verbatim>\<open>a a x b\<close>: the words stand
  with one word between them, but every start position finds the first \<^verbatim>\<open>a\<close>, the gap
  count is 1, the sequence score 0.8 does not pass the gate \<^verbatim>\<open>> 0.8\<close>, and the scorer
  returns 0.7, the same as for the text \<^verbatim>\<open>a x x x x b\<close> with the words far apart.
\<close>

theorem gap_penalty_and_insertion_counterexample:
  "py_split ''a b'' = [''a'', ''b'']
   \<and> py_split ''a a x b'' = [''a''] @ [''a'', ''x'', ''b''] @ []
   \<and> calculate_sequence_similarity (py_split ''a b'') (py_split ''a a x b'') = 0.8
   \<and> calculate_similarity ''a b'' ''a a x b'' = 0.7
   \<and> calculate_similarity ''a b'' ''a x x x x b'' = 0.7
   \<and> \<not> calculate_similarity ''a b'' ''a x x x x b'' < calculate_similarity ''a b'' ''a a x b''"
  by code_simp


end
